theory Spec2Isabelle
  imports Main "HOL-Library.Sublist"
begin

section \<open>Python string primitives used by \<^verbatim>\<open>nest-toc.py\<close>\<close>

text \<open>
  A Python \<^verbatim>\<open>str\<close> is modelled as a \<^typ>\<open>string\<close>; one \<^typ>\<open>char\<close> stands for one
  code point (so the model covers the code points below 256). \<open>isspace\<close> lists the
  code points of that range for which \<^verbatim>\<open>str.isspace\<close> holds; they are what
  \<^verbatim>\<open>strip\<close> and \<^verbatim>\<open>lstrip\<close> without argument remove.
\<close>

definition nl :: char where
  "nl = CHR 0x0A"

definition isspace :: "char \<Rightarrow> bool" where
  "isspace c \<longleftrightarrow>
     c \<in> set [CHR 0x09, CHR 0x0A, CHR 0x0B, CHR 0x0C, CHR 0x0D, CHR 0x1C, CHR 0x1D,
              CHR 0x1E, CHR 0x1F, CHR 0x20, CHR 0x85, CHR 0xA0]"

definition lstrip :: "string \<Rightarrow> string" where
  "lstrip s = dropWhile isspace s"

definition rstrip :: "string \<Rightarrow> string" where
  "rstrip s = rev (dropWhile isspace (rev s))"

definition strip :: "string \<Rightarrow> string" where
  "strip s = lstrip (rstrip s)"

definition startswith :: "string \<Rightarrow> string \<Rightarrow> bool" where
  \<comment> \<open>\<^verbatim>\<open>s.startswith(p)\<close> is \<open>startswith p s\<close>\<close>
  "startswith p s \<longleftrightarrow> prefix p s"

text \<open>\<^verbatim>\<open>content.split('\n')\<close>: the pieces between newlines, always at least one piece.\<close>

fun split_nl :: "string \<Rightarrow> string list" where
  "split_nl [] = [[]]"
| "split_nl (c # cs) =
     (if c = nl then [] # split_nl cs
      else (case split_nl cs of
              l # ls \<Rightarrow> (c # l) # ls
            | [] \<Rightarrow> [[c]]))"

text \<open>\<^verbatim>\<open>'\n'.join(lines)\<close>.\<close>

fun join_nl :: "string list \<Rightarrow> string" where
  "join_nl [] = []"
| "join_nl [l] = l"
| "join_nl (l # m # ls) = l @ nl # join_nl (m # ls)"

text \<open>
  \<^verbatim>\<open>s.replace(old, new)\<close>: the non-overlapping occurrences of \<open>old\<close>, found from the
  left, are replaced. (With an empty \<open>old\<close> Python puts \<open>new\<close> around every character; the
  script only ever passes the literals \<^verbatim>\<open>'- uid:'\<close>, \<^verbatim>\<open>'name:'\<close> and \<^verbatim>\<open>'type:'\<close>.)
\<close>

function replace_str :: "string \<Rightarrow> string \<Rightarrow> string \<Rightarrow> string" where
  "replace_str old new [] = (if old = [] then new else [])"
| "replace_str old new (c # cs) =
     (if old = [] then new @ concat (map (\<lambda>d. d # new) (c # cs))
      else if prefix old (c # cs) then new @ replace_str old new (drop (length old) (c # cs))
      else c # replace_str old new cs)"
  by pat_completeness auto
termination
  by (relation "measure (\<lambda>(old, new, s). length s)") (auto simp: neq_Nil_conv)

text \<open>
  \<^verbatim>\<open>name.rsplit('.', 1)\<close> on a name that contains a dot has two pieces: the text before
  the last dot (index 0) and the text after it (index 1).
\<close>

definition dot :: char where
  "dot = CHR ''.''"

definition parent_of :: "string \<Rightarrow> string" where
  \<comment> \<open>\<^verbatim>\<open>name.rsplit('.', 1)[0]\<close>\<close>
  "parent_of s = rev (drop 1 (dropWhile (\<lambda>c. c \<noteq> dot) (rev s)))"

definition child_of :: "string \<Rightarrow> string" where
  \<comment> \<open>\<^verbatim>\<open>name.rsplit('.', 1)[1]\<close>\<close>
  "child_of s = rev (takeWhile (\<lambda>c. c \<noteq> dot) (rev s))"

text \<open>An f-string prints the value \<^verbatim>\<open>None\<close> as the text \<^verbatim>\<open>None\<close>.\<close>

definition fmt :: "string option \<Rightarrow> string" where
  "fmt v = (case v of None \<Rightarrow> ''None'' | Some s \<Rightarrow> s)"


section \<open>Data model\<close>

text \<open>
  The script keeps namespaces and items in dictionaries. An item dictionary has the keys
  \<^verbatim>\<open>uid\<close>, \<^verbatim>\<open>name\<close>, \<^verbatim>\<open>type\<close> (the last two are \<^verbatim>\<open>None\<close> until a field line sets them)
  and, once the nester has touched it, \<^verbatim>\<open>children\<close>. No code of the script tells a missing
  \<^verbatim>\<open>children\<close> key from an empty list (the nester creates the list before it appends, the
  writer tests \<^verbatim>\<open>'children' in item and item['children']\<close>), so the empty list stands
  for both.
\<close>

datatype item = Item (item_uid: string) (item_name: "string option")
  (item_type: "string option") (children: "item list")

record namespace =
  ns_uid :: string
  ns_name :: "string option"
  ns_type :: "string option"
  ns_items :: "item list"

datatype error =
    NoneType_not_subscriptable  \<comment> \<open>\<^verbatim>\<open>TypeError\<close> of \<^verbatim>\<open>None['items']\<close>\<close>
  | NoneType_not_iterable       \<comment> \<open>\<^verbatim>\<open>TypeError\<close> of \<^verbatim>\<open>'.' in None\<close>\<close>


section \<open>The parser \<^verbatim>\<open>parse_toc\<close>\<close>

text \<open>
  The loop variables of \<^verbatim>\<open>parse_toc\<close>. \<open>current_item\<close> is a reference to a dictionary
  that was appended to the item list of the current namespace: it is kept as the index of
  that list slot, and an assignment through it updates the slot.
\<close>

record pstate =
  result :: "namespace list"
  current_namespace :: "namespace option"
  current_item :: "nat option"

definition indent_of :: "string \<Rightarrow> nat" where
  \<comment> \<open>\<^verbatim>\<open>len(line) - len(line.lstrip())\<close>\<close>
  "indent_of line = length line - length (lstrip line)"

definition field_value :: "string \<Rightarrow> string \<Rightarrow> string" where
  \<comment> \<open>\<^verbatim>\<open>stripped.replace(key, '').strip()\<close>\<close>
  "field_value key stripped = strip (replace_str key [] stripped)"

definition set_item_name :: "string \<Rightarrow> item \<Rightarrow> item" where
  "set_item_name v it = Item (item_uid it) (Some v) (item_type it) (children it)"

definition set_item_type :: "string \<Rightarrow> item \<Rightarrow> item" where
  "set_item_type v it = Item (item_uid it) (item_name it) (Some v) (children it)"

definition update_item :: "nat \<Rightarrow> (item \<Rightarrow> item) \<Rightarrow> namespace \<Rightarrow> namespace" where
  "update_item i f ns = ns\<lparr>ns_items := (ns_items ns)[i := f (ns_items ns ! i)]\<rparr>"

text \<open>One turn of the \<^verbatim>\<open>while\<close> loop, for one line.\<close>

definition parse_line :: "pstate \<Rightarrow> string \<Rightarrow> error + pstate" where
  "parse_line st line =
     (let stripped = strip line in
      if stripped = [] \<or> startswith ''###'' stripped then Inr st
      else
        let indent = indent_of line in
        if stripped = ''items:'' \<and> indent = 0 then Inr st
        else if startswith ''- uid:'' stripped \<and> indent = 0 then
          Inr \<lparr>result = (case current_namespace st of
                           None \<Rightarrow> result st
                         | Some ns \<Rightarrow> result st @ [ns]),
               current_namespace = Some \<lparr>ns_uid = field_value ''- uid:'' stripped,
                                         ns_name = None, ns_type = None, ns_items = []\<rparr>,
               current_item = None\<rparr>
        else if startswith ''name:'' stripped \<and> indent = 2 \<and>
                (case current_namespace st of None \<Rightarrow> False | Some ns \<Rightarrow> ns_name ns = None) then
          Inr (st\<lparr>current_namespace :=
                    map_option (\<lambda>ns. ns\<lparr>ns_name := Some (field_value ''name:'' stripped)\<rparr>)
                      (current_namespace st)\<rparr>)
        else if startswith ''type:'' stripped \<and> indent = 2 \<and>
                (case current_namespace st of None \<Rightarrow> False | Some ns \<Rightarrow> ns_type ns = None) then
          Inr (st\<lparr>current_namespace :=
                    map_option (\<lambda>ns. ns\<lparr>ns_type := Some (field_value ''type:'' stripped)\<rparr>)
                      (current_namespace st)\<rparr>)
        else if stripped = ''items:'' \<and> indent = 2 then Inr st
        else if startswith ''- uid:'' stripped \<and> indent = 2 then
          (case current_namespace st of
             None \<Rightarrow> Inl NoneType_not_subscriptable
           | Some ns \<Rightarrow>
               Inr (st\<lparr>current_namespace :=
                         Some (ns\<lparr>ns_items := ns_items ns @
                                    [Item (field_value ''- uid:'' stripped) None None []]\<rparr>),
                       current_item := Some (length (ns_items ns))\<rparr>))
        else if startswith ''name:'' stripped \<and> indent = 4 \<and> current_item st \<noteq> None then
          (case current_item st of
             None \<Rightarrow> Inr st
           | Some i \<Rightarrow>
               Inr (st\<lparr>current_namespace :=
                         map_option (update_item i (set_item_name (field_value ''name:'' stripped)))
                           (current_namespace st)\<rparr>))
        else if startswith ''type:'' stripped \<and> indent = 4 \<and> current_item st \<noteq> None then
          (case current_item st of
             None \<Rightarrow> Inr st
           | Some i \<Rightarrow>
               Inr (st\<lparr>current_namespace :=
                         map_option (update_item i (set_item_type (field_value ''type:'' stripped)))
                           (current_namespace st)\<rparr>))
        else Inr st)"

text \<open>The \<^verbatim>\<open>while i < len(lines)\<close> loop: every branch advances \<open>i\<close> by one.\<close>

fun parse_lines :: "pstate \<Rightarrow> string list \<Rightarrow> error + pstate" where
  "parse_lines st [] = Inr st"
| "parse_lines st (line # rest) =
     (case parse_line st line of
        Inl e \<Rightarrow> Inl e
      | Inr st' \<Rightarrow> parse_lines st' rest)"

definition init_pstate :: pstate where
  "init_pstate = \<lparr>result = [], current_namespace = None, current_item = None\<rparr>"

definition flush :: "pstate \<Rightarrow> namespace list" where
  \<comment> \<open>\<^verbatim>\<open>if current_namespace: result.append(current_namespace)\<close>\<close>
  "flush st = (case current_namespace st of
                 None \<Rightarrow> result st
               | Some ns \<Rightarrow> result st @ [ns])"

definition parse_toc :: "string \<Rightarrow> error + namespace list" where
  "parse_toc content =
     (case parse_lines init_pstate (split_nl content) of
        Inl e \<Rightarrow> Inl e
      | Inr st \<Rightarrow> Inr (flush st))"


section \<open>The nester \<^verbatim>\<open>nest_items\<close>\<close>

text \<open>
  The inner loop \<^verbatim>\<open>for potential_parent in items\<close> stops at the first item whose name
  equals the parent name: \<open>find_parent\<close> gives the index of that item.
\<close>

fun find_parent :: "string \<Rightarrow> item list \<Rightarrow> nat option" where
  "find_parent p [] = None"
| "find_parent p (it # its) =
     (if item_name it = Some p then Some 0
      else map_option Suc (find_parent p its))"

definition add_child :: "item \<Rightarrow> item \<Rightarrow> item" where
  \<comment> \<open>\<^verbatim>\<open>potential_parent['children'].append(child)\<close>, the list created when missing\<close>
  "add_child child p = Item (item_uid p) (item_name p) (item_type p) (children p @ [child])"

text \<open>
  The body of the first pass for one \<open>item\<close>. The state is the item list, whose
  dictionaries gain children in place, and the set \<open>nested_names\<close>. The pass never changes
  a \<^verbatim>\<open>uid\<close>, \<^verbatim>\<open>name\<close> or \<^verbatim>\<open>type\<close>, and the item dictionaries built by \<open>parse_toc\<close> are
  pairwise distinct objects, so updating one list slot is the whole effect of the append.
  \<^verbatim>\<open>item.get('name', '')\<close> is \<^verbatim>\<open>None\<close> when the key holds \<^verbatim>\<open>None\<close>, and
  \<^verbatim>\<open>'.' in None\<close> raises.
\<close>

definition nest_step :: "item \<Rightarrow> item list \<times> string set \<Rightarrow> error + item list \<times> string set" where
  "nest_step item s =
     (case s of (items, nested_names) \<Rightarrow>
        (case item_name item of
           None \<Rightarrow> Inl NoneType_not_iterable
         | Some name \<Rightarrow>
             if dot \<in> set name then
               (case find_parent (parent_of name) items of
                  None \<Rightarrow> Inr (items, nested_names)
                | Some j \<Rightarrow>
                    Inr (items[j := add_child (Item (item_uid item) (Some (child_of name))
                                                 (item_type item) []) (items ! j)],
                         insert name nested_names))
             else Inr (items, nested_names)))"

fun nest_scan :: "item list \<Rightarrow> item list \<times> string set \<Rightarrow> error + item list \<times> string set" where
  "nest_scan [] s = Inr s"
| "nest_scan (item # rest) s =
     (case nest_step item s of
        Inl e \<Rightarrow> Inl e
      | Inr s' \<Rightarrow> nest_scan rest s')"

definition unnested :: "string set \<Rightarrow> item \<Rightarrow> bool" where
  \<comment> \<open>\<^verbatim>\<open>item.get('name') not in nested_names\<close>\<close>
  "unnested nested_names it \<longleftrightarrow>
     (case item_name it of None \<Rightarrow> True | Some n \<Rightarrow> n \<notin> nested_names)"

definition nest_namespace :: "namespace \<Rightarrow> error + namespace" where
  "nest_namespace ns =
     (let items = ns_items ns in
      if items = [] then Inr ns
      else (case nest_scan items (items, {}) of
              Inl e \<Rightarrow> Inl e
            | Inr (items', nested_names) \<Rightarrow>
                Inr (ns\<lparr>ns_items := filter (unnested nested_names) items'\<rparr>)))"

fun nest_items :: "namespace list \<Rightarrow> error + namespace list" where
  "nest_items [] = Inr []"
| "nest_items (ns # rest) =
     (case nest_namespace ns of
        Inl e \<Rightarrow> Inl e
      | Inr ns' \<Rightarrow>
          (case nest_items rest of
             Inl e \<Rightarrow> Inl e
           | Inr rest' \<Rightarrow> Inr (ns' # rest')))"


section \<open>The writer \<^verbatim>\<open>write_toc\<close>\<close>

text \<open>
  \<^verbatim>\<open>write_item\<close> appends to the list \<open>lines\<close> of the enclosing function; the list is
  passed in and returned.
\<close>

definition spaces :: "nat \<Rightarrow> string" where
  \<comment> \<open>\<^verbatim>\<open>'  ' * indent\<close>\<close>
  "spaces indent = concat (replicate indent ''  '')"

fun write_item :: "item \<Rightarrow> nat \<Rightarrow> string list \<Rightarrow> string list" where
  "write_item (Item u n t cs) indent lines =
     (if cs \<noteq> [] then
        fold (\<lambda>child acc. write_item child (indent + 1) acc) cs
          (lines @ [spaces indent @ ''- uid: '' @ u,
                    spaces indent @ ''  name: '' @ fmt n,
                    spaces indent @ ''  type: '' @ fmt t,
                    spaces indent @ ''  items:''])
      else lines @ [spaces indent @ ''- uid: '' @ u,
                    spaces indent @ ''  name: '' @ fmt n,
                    spaces indent @ ''  type: '' @ fmt t])"

definition write_namespace :: "namespace \<Rightarrow> string list \<Rightarrow> string list" where
  "write_namespace ns lines =
     (let lines3 = lines @ [''- uid: '' @ ns_uid ns,
                            ''  name: '' @ fmt (ns_name ns),
                            ''  type: '' @ fmt (ns_type ns)]
      in if ns_items ns \<noteq> [] then
           fold (\<lambda>item acc. write_item item 1 acc) (ns_items ns) (lines3 @ [''  items:''])
         else lines3)"

definition write_lines :: "namespace list \<Rightarrow> string list" where
  "write_lines namespaces =
     fold write_namespace namespaces [''### YamlMime:TableOfContent'', ''items:'']"

definition write_toc :: "namespace list \<Rightarrow> string" where
  \<comment> \<open>\<^verbatim>\<open>'\n'.join(lines) + '\n'\<close>\<close>
  "write_toc namespaces = join_nl (write_lines namespaces) @ [nl]"


section \<open>The driver \<^verbatim>\<open>main\<close>\<close>

text \<open>
  The driver touches one path, \<open>toc_path\<close>, the two output streams and the exit status.
  The file system is a map from paths to the stored text of the file there; \<^verbatim>\<open>print\<close>
  writes to the standard output. \<^verbatim>\<open>sys.exit(1)\<close> ends the process with status 1 and
  falling off the end of \<^verbatim>\<open>main\<close> with status 0.

  \<^verbatim>\<open>read_text()\<close> opens the file in text mode, where a carriage return followed by a
  line feed, and a carriage return alone, are read as one line feed; \<^verbatim>\<open>write_text\<close>
  stores the text as it is (on a system whose line separator is the line feed).

  An exception of the parser or the nester is not caught: the interpreter prints the
  traceback to the error stream and the process ends with status 1. Of the traceback the
  model keeps the first and the last line; the lines between name source files and line
  numbers.
\<close>

record world =
  files :: "string \<rightharpoonup> string"
  stdout :: "string list"
  stderr :: "string list"

datatype outcome = Exit nat | Uncaught error

definition print :: "string \<Rightarrow> world \<Rightarrow> world" where
  "print msg w = w\<lparr>stdout := stdout w @ [msg]\<rparr>"

definition cr :: char where
  "cr = CHR 0x0D"

fun universal_newlines :: "string \<Rightarrow> string" where
  "universal_newlines [] = []"
| "universal_newlines [c] = (if c = cr then [nl] else [c])"
| "universal_newlines (c # d # cs) =
     (if c = cr \<and> d = nl then nl # universal_newlines cs
      else if c = cr then nl # universal_newlines (d # cs)
      else c # universal_newlines (d # cs))"

definition read_text :: "string \<Rightarrow> string" where
  "read_text stored = universal_newlines stored"

definition exception_line :: "error \<Rightarrow> string" where
  "exception_line e =
     (case e of
        NoneType_not_subscriptable \<Rightarrow>
          ''TypeError: '' @ [CHR 0x27] @ ''NoneType'' @ [CHR 0x27] @ '' object is not subscriptable''
      | NoneType_not_iterable \<Rightarrow>
          ''TypeError: argument of type '' @ [CHR 0x27] @ ''NoneType'' @ [CHR 0x27] @
          '' is not iterable'')"

definition uncaught :: "error \<Rightarrow> world \<Rightarrow> outcome \<times> world" where
  "uncaught e w =
     (Uncaught e,
      w\<lparr>stderr := stderr w @ [''Traceback (most recent call last):'', exception_line e]\<rparr>)"

definition main :: "string \<Rightarrow> world \<Rightarrow> outcome \<times> world" where
  "main toc_path w =
     (case files w toc_path of
        None \<Rightarrow> (Exit 1, print (''Error: '' @ toc_path @ '' not found'') w)
      | Some stored \<Rightarrow>
          (let w1 = print (''Processing '' @ toc_path @ ''...'') w;
               content = read_text stored
           in case parse_toc content of
                Inl e \<Rightarrow> uncaught e w1
              | Inr namespaces \<Rightarrow>
                  (case nest_items namespaces of
                     Inl e \<Rightarrow> uncaught e w1
                   | Inr nested \<Rightarrow>
                       (Exit 0,
                        print ''TOC restructured successfully!''
                          (w1\<lparr>files := (files w1)(toc_path \<mapsto> write_toc nested)\<rparr>)))))"


section \<open>Notions used in the statements\<close>

text \<open>The dictionary that \<open>current_item\<close> refers to, if any.\<close>

definition current_item_dict :: "pstate \<Rightarrow> item option" where
  "current_item_dict st =
     (case current_item st of
        None \<Rightarrow> None
      | Some i \<Rightarrow>
          (case current_namespace st of
             None \<Rightarrow> None
           | Some ns \<Rightarrow> if i < length (ns_items ns) then Some (ns_items ns ! i) else None))"

text \<open>The line shapes tested in lines 71 and 73 of the script.\<close>

definition name_field_line :: "string \<Rightarrow> bool" where
  "name_field_line line \<longleftrightarrow> startswith ''name:'' (strip line) \<and> indent_of line = 4"

definition type_field_line :: "string \<Rightarrow> bool" where
  "type_field_line line \<longleftrightarrow> startswith ''type:'' (strip line) \<and> indent_of line = 4"

text \<open>A world without files and with nothing printed yet.\<close>

definition empty_world :: world where
  "empty_world = \<lparr>files = Map.empty, stdout = [], stderr = []\<rparr>"

text \<open>The line shape tested in line 47 of the script: a namespace entry.\<close>

definition namespace_line :: "string \<Rightarrow> bool" where
  "namespace_line line \<longleftrightarrow> startswith ''- uid:'' (strip line) \<and> indent_of line = 0"

text \<open>The identifier, name and type of an item.\<close>

definition triple :: "item \<Rightarrow> string \<times> string option \<times> string option" where
  "triple it = (item_uid it, item_name it, item_type it)"

text \<open>
  The test of lines 98 and 104: a name with a dot whose text before the last dot is the
  name of some item of the list. \<open>stays\<close> holds for the items that keep their place.
\<close>

definition reparented :: "item list \<Rightarrow> string \<Rightarrow> bool" where
  "reparented items name \<longleftrightarrow> dot \<in> set name \<and> find_parent (parent_of name) items \<noteq> None"

definition stays :: "item list \<Rightarrow> item \<Rightarrow> bool" where
  "stays items it \<longleftrightarrow> (case item_name it of None \<Rightarrow> True | Some n \<Rightarrow> \<not> reparented items n)"

text \<open>The dictionary built in lines 107 to 111.\<close>

definition child_entry :: "item \<Rightarrow> string \<Rightarrow> item" where
  "child_entry it short = Item (item_uid it) (Some short) (item_type it) []"

text \<open>Every item of every namespace has a name.\<close>

definition all_named :: "namespace list \<Rightarrow> bool" where
  "all_named namespaces \<longleftrightarrow>
     (\<forall>ns \<in> set namespaces. \<forall>it \<in> set (ns_items ns). item_name it \<noteq> None)"

text \<open>
  Field values that survive writing and reading: a value without newline, without
  leading or trailing white space, and without an occurrence of the key that
  \<^verbatim>\<open>replace\<close> removes from its line. A clean field is set to a clean value. For the
  descendants of an item only the newline matters, since their lines are never read back.
\<close>

definition clean_value :: "string \<Rightarrow> string \<Rightarrow> bool" where
  "clean_value key v \<longleftrightarrow> nl \<notin> set v \<and> strip v = v \<and> \<not> sublist key v"

definition clean_field :: "string \<Rightarrow> string option \<Rightarrow> bool" where
  "clean_field key x \<longleftrightarrow> (case x of None \<Rightarrow> False | Some v \<Rightarrow> clean_value key v)"

fun plain_item :: "item \<Rightarrow> bool" where
  "plain_item (Item u n t cs) \<longleftrightarrow>
     nl \<notin> set u \<and> nl \<notin> set (fmt n) \<and> nl \<notin> set (fmt t) \<and> (\<forall>c \<in> set cs. plain_item c)"

definition clean_item :: "item \<Rightarrow> bool" where
  "clean_item it \<longleftrightarrow>
     clean_value ''- uid:'' (item_uid it) \<and> clean_field ''name:'' (item_name it) \<and>
     clean_field ''type:'' (item_type it) \<and> (\<forall>c \<in> set (children it). plain_item c)"

definition clean_namespace :: "namespace \<Rightarrow> bool" where
  "clean_namespace ns \<longleftrightarrow>
     clean_value ''- uid:'' (ns_uid ns) \<and> clean_field ''name:'' (ns_name ns) \<and>
     clean_field ''type:'' (ns_type ns) \<and> (\<forall>it \<in> set (ns_items ns). clean_item it)"

definition clean_forest :: "namespace list \<Rightarrow> bool" where
  "clean_forest f \<longleftrightarrow> (\<forall>ns \<in> set f. clean_namespace ns)"

text \<open>An item without its children, and a namespace whose items have lost theirs.\<close>

definition top_level :: "item \<Rightarrow> item" where
  "top_level it = Item (item_uid it) (item_name it) (item_type it) []"

definition drop_children :: "namespace \<Rightarrow> namespace" where
  "drop_children ns = ns\<lparr>ns_items := map top_level (ns_items ns)\<rparr>"


section \<open>Evaluation on concrete inputs\<close>

lemmas str_defs = nl_def isspace_def lstrip_def rstrip_def strip_def startswith_def
  indent_of_def field_value_def dot_def parent_of_def child_of_def fmt_def

lemmas parse_defs = parse_toc_def parse_line_def init_pstate_def flush_def
  update_item_def set_item_name_def set_item_type_def

lemmas nest_defs = nest_namespace_def nest_step_def unnested_def add_child_def

lemmas write_defs = write_toc_def write_lines_def write_namespace_def spaces_def


section \<open>The parser\<close>

subsection \<open>An item line before any namespace line\<close>

text \<open>
  C6. The claim is that \<open>parse_toc\<close> raises on no input, in particular not when the first
  entry line is a \<^verbatim>\<open>- uid:\<close> line at indentation 2. The branches for the namespace fields
  test \<^verbatim>\<open>current_namespace\<close> before they use it; the branch of line 63 does not, and
  on this input \<^verbatim>\<open>current_namespace['items']\<close> subscripts \<^verbatim>\<open>None\<close>: the parser ends
  with a \<^verbatim>\<open>TypeError\<close>.
\<close>

theorem parse_toc_item_before_namespace_raises:
  "parse_toc ''  - uid: x\<newline>'' = Inl NoneType_not_subscriptable"
  by (simp add: str_defs parse_defs)

subsection \<open>Field lines of an item\<close>

lemma name_line_step:
  assumes "current_item_dict st = Some it" and "name_field_line line"
  shows "\<exists>st'. parse_line st line = Inr st' \<and>
           current_item_dict st' = Some (set_item_name (field_value ''name:'' (strip line)) it)"
proof -
  from assms(2) obtain r where r: "strip line = ''name:'' @ r" and i: "indent_of line = 4"
    by (auto simp: name_field_line_def startswith_def prefix_def)
  from assms(1) obtain i ns where c: "current_item st = Some i" "current_namespace st = Some ns"
      "i < length (ns_items ns)" "ns_items ns ! i = it"
    by (auto simp: current_item_dict_def split: option.splits if_splits)
  show ?thesis
    by (simp add: parse_line_def r i c startswith_def current_item_dict_def update_item_def)
qed

lemma type_line_step:
  assumes "current_item_dict st = Some it" and "type_field_line line"
  shows "\<exists>st'. parse_line st line = Inr st' \<and>
           current_item_dict st' = Some (set_item_type (field_value ''type:'' (strip line)) it)"
proof -
  from assms(2) obtain r where r: "strip line = ''type:'' @ r" and i: "indent_of line = 4"
    by (auto simp: type_field_line_def startswith_def prefix_def)
  from assms(1) obtain i ns where c: "current_item st = Some i" "current_namespace st = Some ns"
      "i < length (ns_items ns)" "ns_items ns ! i = it"
    by (auto simp: current_item_dict_def split: option.splits if_splits)
  show ?thesis
    by (simp add: parse_line_def r i c startswith_def current_item_dict_def update_item_def)
qed

lemma name_not_type: "name_field_line l \<Longrightarrow> \<not> type_field_line l"
  by (auto simp: name_field_line_def type_field_line_def startswith_def prefix_def)

text \<open>
  C4. The claim is that of several \<^verbatim>\<open>name:\<close> (or \<^verbatim>\<open>type:\<close>) lines at indentation 4
  for one item the first sets the field and the later ones leave it. The branches for
  the namespace fields do this, through the test \<^verbatim>\<open>is None\<close> of lines 57 and 59: of
  two \<^verbatim>\<open>name:\<close> lines at indentation 2 the namespace keeps the first. The branches
  for the item fields (lines 71 to 74) miss the test and assign again: of two
  \<^verbatim>\<open>name:\<close> lines at indentation 4 the item ends up with the second, and likewise for
  \<^verbatim>\<open>type:\<close>.
\<close>

theorem parse_toc_second_name_line_overwrites:
  "parse_toc ''- uid: N\<newline>  - uid: a\<newline>    name: First\<newline>    name: Second\<newline>'' =
     Inr [\<lparr>ns_uid = ''N'', ns_name = None, ns_type = None,
           ns_items = [Item ''a'' (Some ''Second'') None []]\<rparr>] \<and>
   parse_toc ''- uid: N\<newline>  - uid: a\<newline>    type: Class\<newline>    type: Struct\<newline>'' =
     Inr [\<lparr>ns_uid = ''N'', ns_name = None, ns_type = None,
           ns_items = [Item ''a'' None (Some ''Struct'') []]\<rparr>] \<and>
   parse_toc ''- uid: N\<newline>  name: First\<newline>  name: Second\<newline>'' =
     Inr [\<lparr>ns_uid = ''N'', ns_name = Some ''First'', ns_type = None, ns_items = []\<rparr>]"
  by (simp add: str_defs parse_defs)

text \<open>
  What the item branches do in general: when a run of \<^verbatim>\<open>name:\<close> and \<^verbatim>\<open>type:\<close> lines
  at indentation 4 is read while an item is current, the parser accepts all of them, the
  item keeps its identifier and children, and its name (type) is the value of the last
  \<^verbatim>\<open>name:\<close> (\<^verbatim>\<open>type:\<close>) line of the run; a field for which the run has no line is left
  as it was.
\<close>

theorem item_field_last_occurrence_wins:
  assumes "current_item_dict st = Some it"
    and "\<forall>l \<in> set ls. name_field_line l \<or> type_field_line l"
  shows "\<exists>st' it'. parse_lines st ls = Inr st' \<and> current_item_dict st' = Some it' \<and>
           item_uid it' = item_uid it \<and> children it' = children it \<and>
           item_name it' =
             (if filter name_field_line ls = [] then item_name it
              else Some (field_value ''name:'' (strip (last (filter name_field_line ls))))) \<and>
           item_type it' =
             (if filter type_field_line ls = [] then item_type it
              else Some (field_value ''type:'' (strip (last (filter type_field_line ls)))))"
  using assms
proof (induction ls arbitrary: st it)
  case Nil
  then show ?case by simp
next
  case (Cons l ls)
  from Cons.prems(2) have rest: "\<forall>l \<in> set ls. name_field_line l \<or> type_field_line l" by simp
  from Cons.prems(2) consider (n) "name_field_line l" | (t) "type_field_line l" by auto
  then show ?case
  proof cases
    case n
    from name_line_step [OF Cons.prems(1) n] obtain st1 where
      s: "parse_line st l = Inr st1"
         "current_item_dict st1 = Some (set_item_name (field_value ''name:'' (strip l)) it)"
      by blast
    from Cons.IH [OF s(2) rest] obtain st' it' where
      "parse_lines st1 ls = Inr st'" "current_item_dict st' = Some it'"
      "item_uid it' = item_uid it" "children it' = children it"
      "item_name it' =
             (if filter name_field_line ls = [] then Some (field_value ''name:'' (strip l))
              else Some (field_value ''name:'' (strip (last (filter name_field_line ls)))))"
      "item_type it' =
             (if filter type_field_line ls = [] then item_type it
              else Some (field_value ''type:'' (strip (last (filter type_field_line ls)))))"
      by (auto simp: set_item_name_def)
    then show ?thesis using s(1) n name_not_type [OF n] by auto
  next
    case t
    then have nn: "\<not> name_field_line l" using name_not_type by blast
    from type_line_step [OF Cons.prems(1) t] obtain st1 where
      s: "parse_line st l = Inr st1"
         "current_item_dict st1 = Some (set_item_type (field_value ''type:'' (strip l)) it)"
      by blast
    from Cons.IH [OF s(2) rest] obtain st' it' where
      "parse_lines st1 ls = Inr st'" "current_item_dict st' = Some it'"
      "item_uid it' = item_uid it" "children it' = children it"
      "item_name it' =
             (if filter name_field_line ls = [] then item_name it
              else Some (field_value ''name:'' (strip (last (filter name_field_line ls)))))"
      "item_type it' =
             (if filter type_field_line ls = [] then Some (field_value ''type:'' (strip l))
              else Some (field_value ''type:'' (strip (last (filter type_field_line ls)))))"
      by (auto simp: set_item_type_def)
    then show ?thesis using s(1) t nn by auto
  qed
qed

theorem item_field_last_occurrence_wins_witness:
  "current_item_dict
     \<lparr>result = [],
      current_namespace = Some \<lparr>ns_uid = ''N'', ns_name = None, ns_type = None,
                                ns_items = [Item ''a'' (Some ''Old'') None []]\<rparr>,
      current_item = Some 0\<rparr> = Some (Item ''a'' (Some ''Old'') None []) \<and>
   name_field_line ''    name: First'' \<and> type_field_line ''    type: Class'' \<and>
   name_field_line ''    name: Second'' \<and>
   (\<exists>st' it'.
      parse_lines
        \<lparr>result = [],
         current_namespace = Some \<lparr>ns_uid = ''N'', ns_name = None, ns_type = None,
                                   ns_items = [Item ''a'' (Some ''Old'') None []]\<rparr>,
         current_item = Some 0\<rparr>
        [''    name: First'', ''    type: Class'', ''    name: Second''] = Inr st' \<and>
      current_item_dict st' = Some it' \<and>
      item_name it' = Some ''Second'' \<and> item_type it' = Some ''Class'')"
  using item_field_last_occurrence_wins
    [of "\<lparr>result = [],
         current_namespace = Some \<lparr>ns_uid = ''N'', ns_name = None, ns_type = None,
                                   ns_items = [Item ''a'' (Some ''Old'') None []]\<rparr>,
         current_item = Some 0\<rparr>"
        "Item ''a'' (Some ''Old'') None []"
        "[''    name: First'', ''    type: Class'', ''    name: Second'']"]
  by (simp add: current_item_dict_def name_field_line_def type_field_line_def str_defs parse_defs)

subsection \<open>Namespace lines\<close>

lemma parse_line_uids:
  assumes "parse_line st l = Inr st'"
  shows "map ns_uid (flush st') =
           map ns_uid (flush st) @
             (if namespace_line l then [field_value ''- uid:'' (strip l)] else [])"
proof (cases "namespace_line l")
  case True
  then obtain r where r: "strip l = ''- uid:'' @ r" and i: "indent_of l = 0"
    by (auto simp: namespace_line_def startswith_def prefix_def)
  from assms True show ?thesis
    by (auto simp: parse_line_def r i startswith_def flush_def split: option.splits)
next
  case False
  with assms show ?thesis
    by (auto simp: parse_line_def Let_def namespace_line_def flush_def update_item_def
        split: if_splits option.splits)
qed

lemma parse_lines_uids:
  "parse_lines st ls = Inr st' \<Longrightarrow>
   map ns_uid (flush st') =
     map ns_uid (flush st) @
       map (\<lambda>l. field_value ''- uid:'' (strip l)) (filter namespace_line ls)"
proof (induction ls arbitrary: st)
  case Nil
  then show ?case by simp
next
  case (Cons l ls)
  then obtain st1 where s: "parse_line st l = Inr st1" "parse_lines st1 ls = Inr st'"
    by (auto split: sum.splits)
  show ?case using Cons.IH [OF s(2)] parse_line_uids [OF s(1)] by simp
qed

lemma parse_lines_append:
  "parse_lines st (xs @ ys) =
     (case parse_lines st xs of Inl e \<Rightarrow> Inl e | Inr st' \<Rightarrow> parse_lines st' ys)"
  by (induction xs arbitrary: st) (auto split: sum.splits)

lemma namespace_line_step:
  assumes "namespace_line l"
  shows "parse_line st l =
           Inr \<lparr>result = flush st,
                current_namespace = Some \<lparr>ns_uid = field_value ''- uid:'' (strip l),
                                          ns_name = None, ns_type = None, ns_items = []\<rparr>,
                current_item = None\<rparr>"
proof -
  from assms obtain r where r: "strip l = ''- uid:'' @ r" and i: "indent_of l = 0"
    by (auto simp: namespace_line_def startswith_def prefix_def)
  show ?thesis
    by (simp add: parse_line_def r i startswith_def flush_def)
qed

lemmas parse_line_cases = parse_line_def [unfolded Let_def, folded namespace_line_def]


lemma other_line_result:
  "\<not> namespace_line m \<Longrightarrow>
   parse_line (st\<lparr>result := r\<rparr>) m =
     (case parse_line st m of Inl e \<Rightarrow> Inl e | Inr st' \<Rightarrow> Inr (st'\<lparr>result := r\<rparr>))"
  by (auto simp: parse_line_cases startswith_def split: option.splits)

lemma other_line_keeps:
  "\<not> namespace_line m \<Longrightarrow>
   (case parse_line st m of
      Inl e \<Rightarrow> True
    | Inr st' \<Rightarrow> result st' = result st \<and>
                (current_namespace st \<noteq> None \<longrightarrow> current_namespace st' \<noteq> None))"
  by (auto simp: parse_line_cases startswith_def split: option.splits)

lemma other_line_step:
  assumes "\<not> namespace_line m" and "parse_line st m = Inr st'"
  shows "parse_line (st\<lparr>result := r\<rparr>) m = Inr (st'\<lparr>result := r\<rparr>) \<and> result st' = result st \<and>
         (current_namespace st \<noteq> None \<longrightarrow> current_namespace st' \<noteq> None)"
  using other_line_result [OF assms(1), where st = st and r = r]
    other_line_keeps [OF assms(1), where st = st] assms(2)
  by simp

lemma other_lines_steps:
  assumes "\<forall>m \<in> set post. \<not> namespace_line m" and "parse_lines st post = Inr st'"
  shows "parse_lines (st\<lparr>result := r\<rparr>) post = Inr (st'\<lparr>result := r\<rparr>) \<and> result st' = result st \<and>
         (current_namespace st \<noteq> None \<longrightarrow> current_namespace st' \<noteq> None)"
  using assms
proof (induction post arbitrary: st)
  case Nil
  then show ?case by simp
next
  case (Cons m post)
  then obtain st1 where s: "parse_line st m = Inr st1" "parse_lines st1 post = Inr st'"
    by (auto split: sum.splits)
  from Cons.prems(1) have m: "\<not> namespace_line m" and rest: "\<forall>m \<in> set post. \<not> namespace_line m"
    by simp_all
  note 1 = other_line_step [OF m s(1), where r = r]
  note 2 = Cons.IH [OF rest s(2)]
  show ?case using 1 2 by simp
qed

text \<open>
  C9. Let the input have a last namespace line \<open>l\<close>, that is a \<^verbatim>\<open>- uid:\<close> line at
  indentation 0 with no such line among the lines \<open>post\<close> after it, so that its namespace
  is still in progress at the end of the input. Whenever \<open>parse_toc\<close> returns, the result
  has one record for every \<^verbatim>\<open>- uid:\<close> line at indentation 0, in the order of the lines and
  with the identifier of the line; and its last record is the namespace in progress, whole:
  the record begun by \<open>l\<close> with the name, the type and the items that the lines of
  \<open>post\<close> gave it, appended after the records of the lines \<open>pre\<close> before \<open>l\<close>.
\<close>

theorem parse_toc_records_every_namespace_line:
  assumes "parse_toc content = Inr namespaces"
    and "split_nl content = pre @ l # post"
    and "namespace_line l" and "\<forall>m \<in> set post. \<not> namespace_line m"
  shows "map ns_uid namespaces =
           map (\<lambda>l. field_value ''- uid:'' (strip l)) (filter namespace_line (split_nl content)) \<and>
         (\<exists>st0 st ns.
            parse_lines init_pstate pre = Inr st0 \<and>
            parse_lines
              \<lparr>result = [],
               current_namespace = Some \<lparr>ns_uid = field_value ''- uid:'' (strip l),
                                         ns_name = None, ns_type = None, ns_items = []\<rparr>,
               current_item = None\<rparr> post = Inr st \<and>
            current_namespace st = Some ns \<and>
            namespaces = flush st0 @ [ns])"
proof -
  let ?fresh = "\<lparr>ns_uid = field_value ''- uid:'' (strip l), ns_name = None, ns_type = None,
                 ns_items = []\<rparr>"
  from assms(1) obtain fin where f: "parse_lines init_pstate (split_nl content) = Inr fin"
      "namespaces = flush fin"
    by (auto simp: parse_toc_def split: sum.splits)
  have u: "map ns_uid namespaces =
           map (\<lambda>l. field_value ''- uid:'' (strip l)) (filter namespace_line (split_nl content))"
    using parse_lines_uids [OF f(1)] f(2) by (simp add: init_pstate_def flush_def)
  from f(1) obtain st0 where p: "parse_lines init_pstate pre = Inr st0"
      "parse_lines st0 (l # post) = Inr fin"
    unfolding assms(2) parse_lines_append by (auto split: sum.splits)
  let ?st1 = "\<lparr>result = flush st0, current_namespace = Some ?fresh, current_item = None\<rparr>"
  from p(2) have q: "parse_lines ?st1 post = Inr fin"
    by (simp add: namespace_line_step [OF assms(3)])
  from other_lines_steps [OF assms(4) q, where r = "[]"]
  have t: "parse_lines \<lparr>result = [], current_namespace = Some ?fresh, current_item = None\<rparr> post =
             Inr (fin\<lparr>result := []\<rparr>)"
    and r: "result fin = flush st0" and c: "current_namespace fin \<noteq> None"
    by simp_all
  from c obtain ns where ns: "current_namespace fin = Some ns" by blast
  have "namespaces = flush st0 @ [ns]" using f(2) r ns by (simp add: flush_def)
  moreover have "current_namespace (fin\<lparr>result := []\<rparr>) = Some ns" using ns by simp
  ultimately have "\<exists>st0 st ns.
            parse_lines init_pstate pre = Inr st0 \<and>
            parse_lines \<lparr>result = [], current_namespace = Some ?fresh, current_item = None\<rparr> post =
              Inr st \<and>
            current_namespace st = Some ns \<and>
            namespaces = flush st0 @ [ns]"
    using p(1) t by - (intro exI conjI, assumption+)
  with u show ?thesis by (rule conjI)
qed

theorem parse_toc_records_every_namespace_line_witness:
  "parse_toc ''- uid: N1\<newline>  name: First\<newline>- uid: N2\<newline>  name: Second\<newline>  type: Namespace\<newline>  items:\<newline>  - uid: a\<newline>    name: A'' =
     Inr [\<lparr>ns_uid = ''N1'', ns_name = Some ''First'', ns_type = None, ns_items = []\<rparr>,
          \<lparr>ns_uid = ''N2'', ns_name = Some ''Second'', ns_type = Some ''Namespace'',
           ns_items = [Item ''a'' (Some ''A'') None []]\<rparr>] \<and>
   split_nl ''- uid: N1\<newline>  name: First\<newline>- uid: N2\<newline>  name: Second\<newline>  type: Namespace\<newline>  items:\<newline>  - uid: a\<newline>    name: A'' =
     [''- uid: N1'', ''  name: First''] @ ''- uid: N2'' #
     [''  name: Second'', ''  type: Namespace'', ''  items:'', ''  - uid: a'', ''    name: A''] \<and>
   namespace_line ''- uid: N2'' \<and>
   filter namespace_line
     [''  name: Second'', ''  type: Namespace'', ''  items:'', ''  - uid: a'', ''    name: A''] = [] \<and>
   parse_lines
     \<lparr>result = [],
      current_namespace = Some \<lparr>ns_uid = ''N2'', ns_name = None, ns_type = None, ns_items = []\<rparr>,
      current_item = None\<rparr>
     [''  name: Second'', ''  type: Namespace'', ''  items:'', ''  - uid: a'', ''    name: A''] =
     Inr \<lparr>result = [],
          current_namespace = Some \<lparr>ns_uid = ''N2'', ns_name = Some ''Second'',
                                    ns_type = Some ''Namespace'',
                                    ns_items = [Item ''a'' (Some ''A'') None []]\<rparr>,
          current_item = Some 0\<rparr>"
  using parse_toc_records_every_namespace_line
    [of "''- uid: N1\<newline>  name: First\<newline>- uid: N2\<newline>  name: Second\<newline>  type: Namespace\<newline>  items:\<newline>  - uid: a\<newline>    name: A''"
        "[\<lparr>ns_uid = ''N1'', ns_name = Some ''First'', ns_type = None, ns_items = []\<rparr>,
          \<lparr>ns_uid = ''N2'', ns_name = Some ''Second'', ns_type = Some ''Namespace'',
           ns_items = [Item ''a'' (Some ''A'') None []]\<rparr>]"
        "[''- uid: N1'', ''  name: First'']" "''- uid: N2''"
        "[''  name: Second'', ''  type: Namespace'', ''  items:'', ''  - uid: a'', ''    name: A'']"]
  by (simp add: str_defs parse_defs namespace_line_def)


section \<open>The nester\<close>

subsection \<open>Items without a name\<close>

lemma nest_step_error: "nest_step it s = Inl e \<Longrightarrow> e = NoneType_not_iterable"
  by (auto simp: nest_step_def split: prod.splits option.splits if_splits)

lemma nest_scan_error: "nest_scan xs s = Inl e \<Longrightarrow> e = NoneType_not_iterable"
  by (induction xs arbitrary: s) (auto split: sum.splits dest: nest_step_error)

lemma nest_step_None: "item_name it = None \<Longrightarrow> nest_step it s = Inl NoneType_not_iterable"
  by (simp add: nest_step_def split: prod.splits)

lemma nest_scan_None:
  "it \<in> set xs \<Longrightarrow> item_name it = None \<Longrightarrow> nest_scan xs s = Inl NoneType_not_iterable"
proof (induction xs arbitrary: s)
  case Nil
  then show ?case by simp
next
  case (Cons x xs)
  show ?case
  proof (cases "nest_step x s")
    case (Inl e)
    then show ?thesis using nest_step_error [OF Inl] by simp
  next
    case (Inr s')
    with Cons.prems have "it \<in> set xs" using nest_step_None [of x s] by auto
    then show ?thesis using Cons.IH Cons.prems(2) Inr by simp
  qed
qed

lemma nest_namespace_error: "nest_namespace ns = Inl e \<Longrightarrow> e = NoneType_not_iterable"
  by (auto simp: nest_namespace_def Let_def split: if_splits sum.splits dest: nest_scan_error)

lemma nest_namespace_None:
  "it \<in> set (ns_items ns) \<Longrightarrow> item_name it = None \<Longrightarrow>
   nest_namespace ns = Inl NoneType_not_iterable"
  using nest_scan_None [of it "ns_items ns" "(ns_items ns, {})"]
  by (auto simp: nest_namespace_def Let_def)

text \<open>
  C10. If some namespace holds an item whose name is \<^verbatim>\<open>None\<close> (what the parser leaves
  for an item line that no \<^verbatim>\<open>name:\<close> line follows), \<open>nest_items\<close> does not skip the item:
  the test \<^verbatim>\<open>'.' in name\<close> raises a \<^verbatim>\<open>TypeError\<close>, and no result is returned.
\<close>

theorem nest_items_raises_on_missing_name:
  assumes "ns \<in> set namespaces" and "it \<in> set (ns_items ns)" and "item_name it = None"
  shows "nest_items namespaces = Inl NoneType_not_iterable"
  using assms
proof (induction namespaces)
  case Nil
  then show ?case by simp
next
  case (Cons m ms)
  show ?case
  proof (cases "nest_namespace m")
    case (Inl e)
    then show ?thesis using nest_namespace_error [OF Inl] by simp
  next
    case (Inr m')
    with Cons.prems have "ns \<in> set ms" using nest_namespace_None [of it m] by auto
    then have "nest_items ms = Inl NoneType_not_iterable" using Cons by blast
    then show ?thesis using Inr by simp
  qed
qed

theorem nest_items_raises_on_missing_name_witness:
  "parse_toc ''- uid: N\<newline>  - uid: a\<newline>'' =
     Inr [\<lparr>ns_uid = ''N'', ns_name = None, ns_type = None,
           ns_items = [Item ''a'' None None []]\<rparr>] \<and>
   nest_items [\<lparr>ns_uid = ''N'', ns_name = None, ns_type = None,
                ns_items = [Item ''a'' None None []]\<rparr>] =
     Inl NoneType_not_iterable"
  using nest_items_raises_on_missing_name
    [of "\<lparr>ns_uid = ''N'', ns_name = None, ns_type = None, ns_items = [Item ''a'' None None []]\<rparr>"
        "[\<lparr>ns_uid = ''N'', ns_name = None, ns_type = None,
           ns_items = [Item ''a'' None None []]\<rparr>]"
        "Item ''a'' None None []"]
  by (simp add: str_defs parse_defs)

subsection \<open>Three levels of names\<close>

text \<open>
  C1. For the item list \<open>[A, A.B, A.B.C]\<close> the claim is that the written output shows \<open>B\<close>
  under \<open>A\<close> and \<open>C\<close> under the entry of \<open>A.B\<close>. The scan does append \<open>C\<close> to the
  dictionary of \<open>A.B\<close>, but the child put under \<open>A\<close> is a fresh dictionary with the three
  fields only, and the dictionary of \<open>A.B\<close> is then filtered out of the item list: the
  output has \<open>B\<close> under \<open>A\<close> and no line for \<open>C\<close>.
\<close>

theorem nest_write_drops_grandchild:
  "nest_scan
     [Item ''a'' (Some ''A'') (Some ''Class'') [], Item ''b'' (Some ''A.B'') (Some ''Class'') [],
      Item ''c'' (Some ''A.B.C'') (Some ''Class'') []]
     ([Item ''a'' (Some ''A'') (Some ''Class'') [], Item ''b'' (Some ''A.B'') (Some ''Class'') [],
       Item ''c'' (Some ''A.B.C'') (Some ''Class'') []], {}) =
     Inr ([Item ''a'' (Some ''A'') (Some ''Class'') [Item ''b'' (Some ''B'') (Some ''Class'') []],
           Item ''b'' (Some ''A.B'') (Some ''Class'') [Item ''c'' (Some ''C'') (Some ''Class'') []],
           Item ''c'' (Some ''A.B.C'') (Some ''Class'') []], {''A.B'', ''A.B.C''}) \<and>
   nest_items
     [\<lparr>ns_uid = ''N'', ns_name = Some ''N'', ns_type = Some ''Namespace'',
       ns_items = [Item ''a'' (Some ''A'') (Some ''Class'') [],
                   Item ''b'' (Some ''A.B'') (Some ''Class'') [],
                   Item ''c'' (Some ''A.B.C'') (Some ''Class'') []]\<rparr>] =
     Inr [\<lparr>ns_uid = ''N'', ns_name = Some ''N'', ns_type = Some ''Namespace'',
           ns_items = [Item ''a'' (Some ''A'') (Some ''Class'')
                         [Item ''b'' (Some ''B'') (Some ''Class'') []]]\<rparr>] \<and>
   write_toc
     [\<lparr>ns_uid = ''N'', ns_name = Some ''N'', ns_type = Some ''Namespace'',
       ns_items = [Item ''a'' (Some ''A'') (Some ''Class'')
                     [Item ''b'' (Some ''B'') (Some ''Class'') []]]\<rparr>] =
     ''### YamlMime:TableOfContent\<newline>items:\<newline>- uid: N\<newline>  name: N\<newline>  type: Namespace\<newline>  items:\<newline>  - uid: a\<newline>    name: A\<newline>    type: Class\<newline>    items:\<newline>    - uid: b\<newline>      name: B\<newline>      type: Class\<newline>''"
  by (simp add: str_defs nest_defs write_defs insert_commute)

section \<open>The writer\<close>

lemma fold_append_concat:
  assumes "\<And>c a. c \<in> set cs \<Longrightarrow> f c a = a @ f c []"
  shows "fold f cs acc = acc @ concat (map (\<lambda>c. f c []) cs)"
  using assms
proof (induction cs arbitrary: acc)
  case Nil
  then show ?case by simp
next
  case (Cons c cs)
  have 1: "fold f cs (f c acc) = f c acc @ concat (map (\<lambda>c. f c []) cs)"
    by (rule Cons.IH) (rule Cons.prems, simp)
  have 2: "f c acc = acc @ f c []"
    by (rule Cons.prems) simp
  have "fold f (c # cs) acc = (acc @ f c []) @ concat (map (\<lambda>c. f c []) cs)"
    unfolding fold_simps 1 by (subst 2) (rule refl)
  then show ?case by simp
qed

lemma write_item_append: "write_item it d acc = acc @ write_item it d []"
proof (induction it d acc rule: write_item.induct)
  case (1 u n t cs indent lines)
  show ?case
  proof (cases "cs = []")
    case True
    then show ?thesis by simp
  next
    case False
    have ih: "\<And>c a. c \<in> set cs \<Longrightarrow>
                write_item c (indent + 1) a = a @ write_item c (indent + 1) []"
      by (rule "1") (rule False)
    have f: "\<And>acc. fold (\<lambda>child. write_item child (indent + 1)) cs acc =
               acc @ concat (map (\<lambda>c. write_item c (indent + 1) []) cs)"
      by (rule fold_append_concat) (rule ih)
    show ?thesis using False unfolding write_item.simps f by simp
  qed
qed

lemma write_item_unfold:
  "write_item (Item u n t cs) d [] =
     [spaces d @ ''- uid: '' @ u, spaces d @ ''  name: '' @ fmt n, spaces d @ ''  type: '' @ fmt t] @
     (if cs = [] then []
      else (spaces d @ ''  items:'') # concat (map (\<lambda>c. write_item c (Suc d) []) cs))"
proof -
  have f: "\<And>acc. fold (\<lambda>child. write_item child (d + 1)) cs acc =
               acc @ concat (map (\<lambda>c. write_item c (d + 1) []) cs)"
    by (rule fold_append_concat) (rule write_item_append)
  show ?thesis unfolding write_item.simps f by simp
qed

lemma write_namespace_unfold:
  "write_namespace ns acc =
     acc @ [''- uid: '' @ ns_uid ns, ''  name: '' @ fmt (ns_name ns), ''  type: '' @ fmt (ns_type ns)] @
     (if ns_items ns = [] then []
      else ''  items:'' # concat (map (\<lambda>it. write_item it 1 []) (ns_items ns)))"
proof -
  have f: "\<And>acc. fold (\<lambda>item. write_item item 1) (ns_items ns) acc =
               acc @ concat (map (\<lambda>c. write_item c 1 []) (ns_items ns))"
    by (rule fold_append_concat) (rule write_item_append)
  show ?thesis unfolding write_namespace_def Let_def f by simp
qed

lemma write_namespace_append: "write_namespace ns a = a @ write_namespace ns []"
  using write_namespace_unfold [of ns a] write_namespace_unfold [of ns "[]"] by simp

lemma write_lines_unfold:
  "write_lines nss =
     [''### YamlMime:TableOfContent'', ''items:''] @ concat (map (\<lambda>ns. write_namespace ns []) nss)"
proof -
  have f: "\<And>acc. fold write_namespace nss acc = acc @ concat (map (\<lambda>ns. write_namespace ns []) nss)"
    by (rule fold_append_concat) (rule write_namespace_append)
  show ?thesis unfolding write_lines_def f by simp
qed

lemma sublist_concat_member: "x \<in> set xs \<Longrightarrow> sublist (f x) (concat (map f xs))"
proof (induction xs)
  case Nil
  then show ?case by simp
next
  case (Cons a xs)
  show ?case
  proof (cases "x = a")
    case True
    then show ?thesis using sublist_appendI [of "f a" "[]" "concat (map f xs)"] by simp
  next
    case False
    then have "sublist (f x) (concat (map f xs))" using Cons by simp
    then obtain p q where "concat (map f xs) = p @ f x @ q" by (auto simp: sublist_def)
    then have "concat (map f (a # xs)) = (f a @ p) @ f x @ q" by simp
    then show ?thesis unfolding sublist_def by blast
  qed
qed

lemma sublist_child_item:
  assumes "c \<in> set (children p)"
  shows "sublist (write_item c (Suc d) []) (write_item p d [])"
proof -
  obtain u n t cs where p: "p = Item u n t cs" by (cases p)
  with assms have c: "c \<in> set cs" "cs \<noteq> []" by auto
  have "sublist (write_item c (Suc d) []) (concat (map (\<lambda>c. write_item c (Suc d) []) cs))"
    using sublist_concat_member [OF c(1)] .
  then obtain a b where "concat (map (\<lambda>c. write_item c (Suc d) []) cs) = a @ write_item c (Suc d) [] @ b"
    by (auto simp: sublist_def)
  then have "write_item p d [] = ([spaces d @ ''- uid: '' @ u, spaces d @ ''  name: '' @ fmt n,
       spaces d @ ''  type: '' @ fmt t, spaces d @ ''  items:''] @ a) @ write_item c (Suc d) [] @ b"
    using c(2) by (simp add: p write_item_unfold del: write_item.simps)
  then show ?thesis unfolding sublist_def by blast
qed

lemma sublist_item_namespace:
  assumes "it \<in> set (ns_items ns)"
  shows "sublist (write_item it 1 []) (write_namespace ns [])"
proof -
  from assms have ne: "ns_items ns \<noteq> []" by auto
  from sublist_concat_member [OF assms, of "\<lambda>it. write_item it 1 []"]
  obtain a b where "concat (map (\<lambda>it. write_item it 1 []) (ns_items ns)) = a @ write_item it 1 [] @ b"
    by (auto simp: sublist_def)
  then have "write_namespace ns [] = ([''- uid: '' @ ns_uid ns, ''  name: '' @ fmt (ns_name ns),
       ''  type: '' @ fmt (ns_type ns), ''  items:''] @ a) @ write_item it 1 [] @ b"
    using ne by (simp add: write_namespace_unfold del: write_item.simps)
  then show ?thesis unfolding sublist_def by blast
qed

lemma sublist_namespace_lines:
  assumes "ns \<in> set nss"
  shows "sublist (write_namespace ns []) (write_lines nss)"
proof -
  from sublist_concat_member [OF assms, of "\<lambda>ns. write_namespace ns []"]
  obtain a b where "concat (map (\<lambda>ns. write_namespace ns []) nss) = a @ write_namespace ns [] @ b"
    by (auto simp: sublist_def)
  then have "write_lines nss = ([''### YamlMime:TableOfContent'', ''items:''] @ a) @ write_namespace ns [] @ b"
    by (simp add: write_lines_unfold)
  then show ?thesis unfolding sublist_def by blast
qed


section \<open>The nester on well-formed forests\<close>

subsection \<open>The scan\<close>

lemma find_parent_Some:
  "find_parent p xs = Some j \<Longrightarrow> j < length xs \<and> item_name (xs ! j) = Some p"
  by (induction xs arbitrary: j) (auto split: if_splits)

lemma find_parent_None: "find_parent p xs = None \<longleftrightarrow> Some p \<notin> item_name ` set xs"
  by (induction xs) (auto split: if_splits)

lemma find_parent_cong:
  "map triple xs = map triple ys \<Longrightarrow> find_parent p xs = find_parent p ys"
proof (induction xs arbitrary: ys)
  case Nil
  then show ?case by simp
next
  case (Cons x xs)
  then obtain y ys' where ys: "ys = y # ys'" by (cases ys) auto
  with Cons.prems have t: "triple x = triple y" "map triple xs = map triple ys'"
    by simp_all
  from t(1) have "item_name x = item_name y" by (simp add: triple_def)
  then show ?case using Cons.IH [OF t(2)] ys by simp
qed

lemma reparented_cong: "map triple xs = map triple ys \<Longrightarrow> reparented xs n = reparented ys n"
  by (simp add: reparented_def find_parent_cong [of xs ys])

lemma triple_add_child [simp]: "triple (add_child c p) = triple p"
  by (simp add: triple_def add_child_def)

lemma nest_step_triples:
  assumes "nest_step it (cur, N) = Inr (cur', N')"
  shows "map triple cur' = map triple cur"
  using assms
  by (auto simp: nest_step_def map_update list_update_same_conv dest!: find_parent_Some
      split: option.splits if_splits)

lemma nest_step_names:
  assumes "nest_step it (cur, N) = Inr (cur', N')"
  shows "\<exists>n. item_name it = Some n \<and> N' = (if reparented cur n then insert n N else N)"
  using assms
  by (auto simp: nest_step_def reparented_def split: option.splits if_splits)

lemma nest_scan_triples:
  "nest_scan xs (cur, N) = Inr (cur', N') \<Longrightarrow> map triple cur' = map triple cur"
proof (induction xs arbitrary: cur N)
  case Nil
  then show ?case by simp
next
  case (Cons x xs)
  then obtain c1 N1 where s: "nest_step x (cur, N) = Inr (c1, N1)"
      "nest_scan xs (c1, N1) = Inr (cur', N')"
    by (auto split: sum.splits)
  show ?case using Cons.IH [OF s(2)] nest_step_triples [OF s(1)] by simp
qed

lemma nest_scan_names:
  "nest_scan xs (cur, N) = Inr (cur', N') \<Longrightarrow>
   N' = N \<union> {n. Some n \<in> item_name ` set xs \<and> reparented cur n}"
proof (induction xs arbitrary: cur N)
  case Nil
  then show ?case by simp
next
  case (Cons x xs)
  then obtain c1 N1 where s: "nest_step x (cur, N) = Inr (c1, N1)"
      "nest_scan xs (c1, N1) = Inr (cur', N')"
    by (auto split: sum.splits)
  from nest_step_names [OF s(1)] obtain n where
    n: "item_name x = Some n" "N1 = (if reparented cur n then insert n N else N)" by blast
  have r: "\<And>m. reparented c1 m = reparented cur m"
    using reparented_cong [OF nest_step_triples [OF s(1)]] by simp
  have "N' = N1 \<union> {n. Some n \<in> item_name ` set xs \<and> reparented cur n}"
    using Cons.IH [OF s(2)] r by simp
  then show ?case using n by auto
qed

lemma nest_scan_total:
  "\<forall>it \<in> set xs. item_name it \<noteq> None \<Longrightarrow> \<exists>s'. nest_scan xs s = Inr s'"
proof (induction xs arbitrary: s)
  case Nil
  then show ?case by simp
next
  case (Cons x xs)
  then obtain n where "item_name x = Some n" by auto
  then have "\<exists>s1. nest_step x s = Inr s1"
    by (cases s) (auto simp: nest_step_def split: option.splits)
  then show ?case using Cons by auto
qed

text \<open>Children only grow, and the child of a re-parented item is appended.\<close>

lemma nest_step_children_mono:
  assumes "nest_step it (cur, N) = Inr (cur', N')" and "j < length cur"
  shows "set (children (cur ! j)) \<subseteq> set (children (cur' ! j))"
  using assms
  by (auto simp: nest_step_def nth_list_update add_child_def dest!: find_parent_Some
      split: option.splits if_splits)

lemma nest_scan_children_mono:
  "nest_scan xs (cur, N) = Inr (cur', N') \<Longrightarrow> j < length cur \<Longrightarrow>
   set (children (cur ! j)) \<subseteq> set (children (cur' ! j))"
proof (induction xs arbitrary: cur N)
  case Nil
  then show ?case by simp
next
  case (Cons x xs)
  then obtain c1 N1 where s: "nest_step x (cur, N) = Inr (c1, N1)"
      "nest_scan xs (c1, N1) = Inr (cur', N')"
    by (auto split: sum.splits)
  have l: "length c1 = length cur" using nest_step_triples [OF s(1)] by (metis length_map)
  show ?case
    using nest_step_children_mono [OF s(1) Cons.prems(2)] Cons.IH [OF s(2)] Cons.prems(2) l
    by auto
qed

lemma nest_step_child:
  assumes "nest_step it (cur, N) = Inr (cur', N')" and "item_name it = Some n"
    and "dot \<in> set n" and "find_parent (parent_of n) cur = Some j"
  shows "child_entry it (child_of n) \<in> set (children (cur' ! j))"
  using assms find_parent_Some [OF assms(4)]
  by (auto simp: nest_step_def child_entry_def add_child_def)

lemma nest_scan_child:
  "nest_scan xs (cur, N) = Inr (cur', N') \<Longrightarrow> c \<in> set xs \<Longrightarrow> item_name c = Some n \<Longrightarrow>
   dot \<in> set n \<Longrightarrow> find_parent (parent_of n) cur = Some j \<Longrightarrow>
   child_entry c (child_of n) \<in> set (children (cur' ! j))"
proof (induction xs arbitrary: cur N)
  case Nil
  then show ?case by simp
next
  case (Cons x xs)
  then obtain c1 N1 where s: "nest_step x (cur, N) = Inr (c1, N1)"
      "nest_scan xs (c1, N1) = Inr (cur', N')"
    by (auto split: sum.splits)
  have t: "map triple c1 = map triple cur" by (rule nest_step_triples [OF s(1)])
  then have l: "length c1 = length cur" by (metis length_map)
  have j: "j < length cur" using find_parent_Some [OF Cons.prems(5)] by simp
  show ?case
  proof (cases "c = x")
    case True
    then have "child_entry c (child_of n) \<in> set (children (c1 ! j))"
      using nest_step_child [OF s(1)] Cons.prems by simp
    then show ?thesis using nest_scan_children_mono [OF s(2), of j] j l by auto
  next
    case False
    then have "c \<in> set xs" using Cons.prems(2) by simp
    moreover have "find_parent (parent_of n) c1 = Some j"
      using find_parent_cong [OF t] Cons.prems(5) by simp
    ultimately show ?thesis using Cons.IH [OF s(2)] Cons.prems by blast
  qed
qed

subsection \<open>Namespaces and forests\<close>

lemma parent_of_append [simp]:
  assumes "dot \<notin> set bar"
  shows "parent_of (foo @ dot # bar) = foo"
proof -
  have "dropWhile (\<lambda>c. c \<noteq> dot) (rev bar @ dot # rev foo) = dot # rev foo"
    using assms by (subst dropWhile_append2) auto
  then show ?thesis by (simp add: parent_of_def)
qed

lemma child_of_append [simp]:
  assumes "dot \<notin> set bar"
  shows "child_of (foo @ dot # bar) = bar"
proof -
  have "takeWhile (\<lambda>c. c \<noteq> dot) (rev bar @ dot # rev foo) = rev bar"
    using assms by (subst takeWhile_append2) auto
  then show ?thesis by (simp add: child_of_def)
qed

lemma filter_stays_cong:
  "map triple xs = map triple ys \<Longrightarrow>
   map triple (filter (stays I) xs) = map triple (filter (stays I) ys)"
proof (induction xs arbitrary: ys)
  case Nil
  then show ?case by simp
next
  case (Cons x xs)
  then obtain y ys' where ys: "ys = y # ys'" by (cases ys) auto
  with Cons.prems have t: "triple x = triple y" "map triple xs = map triple ys'"
    by simp_all
  from t(1) have "stays I x = stays I y" by (simp add: triple_def stays_def)
  then show ?case using Cons.IH [OF t(2)] ys t(1) by simp
qed

lemma nest_namespace_result:
  assumes "nest_namespace ns = Inr ns'"
  shows "\<exists>cur' N'. nest_scan (ns_items ns) (ns_items ns, {}) = Inr (cur', N') \<and>
           map triple cur' = map triple (ns_items ns) \<and>
           ns' = ns\<lparr>ns_items := filter (stays (ns_items ns)) cur'\<rparr>"
proof (cases "ns_items ns = []")
  case True
  with assms show ?thesis by (simp add: nest_namespace_def)
next
  case False
  with assms obtain cur' N' where s: "nest_scan (ns_items ns) (ns_items ns, {}) = Inr (cur', N')"
      "ns' = ns\<lparr>ns_items := filter (unnested N') cur'\<rparr>"
    by (auto simp: nest_namespace_def Let_def split: sum.splits)
  have t: "map triple cur' = map triple (ns_items ns)" by (rule nest_scan_triples [OF s(1)])
  have N: "N' = {n. Some n \<in> item_name ` set (ns_items ns) \<and> reparented (ns_items ns) n}"
    using nest_scan_names [OF s(1)] by simp
  have names: "item_name ` set cur' = item_name ` set (ns_items ns)"
  proof -
    have "map item_name cur' = map (fst \<circ> snd) (map triple cur')"
      by (simp add: triple_def comp_def)
    also have "\<dots> = map item_name (ns_items ns)" unfolding t by (simp add: triple_def comp_def)
    finally show ?thesis by (metis set_map)
  qed
  have "filter (unnested N') cur' = filter (stays (ns_items ns)) cur'"
  proof (rule filter_cong [OF refl])
    fix it assume "it \<in> set cur'"
    then have "item_name it \<in> item_name ` set (ns_items ns)" using names by blast
    then show "unnested N' it = stays (ns_items ns) it"
      by (auto simp: unnested_def stays_def N split: option.splits)
  qed
  then show ?thesis using s t by simp
qed

lemma nest_namespace_total:
  "\<forall>it \<in> set (ns_items ns). item_name it \<noteq> None \<Longrightarrow> \<exists>ns'. nest_namespace ns = Inr ns'"
  using nest_scan_total [of "ns_items ns" "(ns_items ns, {})"]
  by (auto simp: nest_namespace_def Let_def)

lemma nest_items_total:
  "all_named nss \<Longrightarrow> \<exists>out. nest_items nss = Inr out"
proof (induction nss)
  case Nil
  then show ?case by simp
next
  case (Cons ns nss)
  then have "\<exists>ns'. nest_namespace ns = Inr ns'" "\<exists>out. nest_items nss = Inr out"
    using nest_namespace_total [of ns] by (auto simp: all_named_def)
  then show ?case by auto
qed

lemma nest_items_pointwise:
  "nest_items nss = Inr out \<Longrightarrow>
   length out = length nss \<and> (\<forall>k < length nss. nest_namespace (nss ! k) = Inr (out ! k))"
proof (induction nss arbitrary: out)
  case Nil
  then show ?case by simp
next
  case (Cons ns nss)
  then obtain ns' rest where s: "nest_namespace ns = Inr ns'" "nest_items nss = Inr rest"
      "out = ns' # rest"
    by (auto split: sum.splits)
  show ?case using Cons.IH [OF s(2)] s(1,3) by (auto simp: nth_Cons split: nat.splits)
qed

lemma nest_namespace_fields:
  assumes "nest_namespace ns = Inr ns'"
  shows "ns_uid ns' = ns_uid ns \<and> ns_name ns' = ns_name ns \<and> ns_type ns' = ns_type ns \<and>
         map triple (ns_items ns') = map triple (filter (stays (ns_items ns)) (ns_items ns))"
proof -
  from nest_namespace_result [OF assms] obtain cur' N' where
    s: "map triple cur' = map triple (ns_items ns)"
       "ns' = ns\<lparr>ns_items := filter (stays (ns_items ns)) cur'\<rparr>" by blast
  show ?thesis using filter_stays_cong [OF s(1), of "ns_items ns"] by (simp add: s(2))
qed

text \<open>
  C8. When every item has a name, \<open>nest_items\<close> returns the namespaces in their order
  with their identifiers, names and types; the top-level items of each namespace are the
  items that are not re-parented, in their original relative order (a subsequence of the
  original list); and the writer prints the namespaces, and within each namespace its
  items, in list order.
\<close>

theorem nest_write_preserve_order:
  assumes "all_named nss"
  shows "\<exists>out. nest_items nss = Inr out \<and>
           map ns_uid out = map ns_uid nss \<and> map ns_name out = map ns_name nss \<and>
           map ns_type out = map ns_type nss \<and>
           (\<forall>k < length nss.
              map triple (ns_items (out ! k)) =
                map triple (filter (stays (ns_items (nss ! k))) (ns_items (nss ! k))) \<and>
              subseq (map triple (ns_items (out ! k))) (map triple (ns_items (nss ! k)))) \<and>
           write_lines out =
             [''### YamlMime:TableOfContent'', ''items:''] @
             concat (map (\<lambda>ns.
               [''- uid: '' @ ns_uid ns, ''  name: '' @ fmt (ns_name ns),
                ''  type: '' @ fmt (ns_type ns)] @
               (if ns_items ns = [] then []
                else ''  items:'' # concat (map (\<lambda>it. write_item it 1 []) (ns_items ns)))) out)"
proof -
  from nest_items_total [OF assms] obtain out where out: "nest_items nss = Inr out" by blast
  note pw = nest_items_pointwise [OF out]
  have f: "\<And>k. k < length nss \<Longrightarrow>
     ns_uid (out ! k) = ns_uid (nss ! k) \<and> ns_name (out ! k) = ns_name (nss ! k) \<and>
     ns_type (out ! k) = ns_type (nss ! k) \<and>
     map triple (ns_items (out ! k)) =
       map triple (filter (stays (ns_items (nss ! k))) (ns_items (nss ! k)))"
    using pw nest_namespace_fields by blast
  have 1: "map ns_uid out = map ns_uid nss" "map ns_name out = map ns_name nss"
    "map ns_type out = map ns_type nss"
    using pw f by (auto intro!: nth_equalityI)
  have 2: "\<And>k. k < length nss \<Longrightarrow>
     subseq (map triple (ns_items (out ! k))) (map triple (ns_items (nss ! k)))"
    using f by (simp add: subseq_map)
  have 3: "write_lines out =
             [''### YamlMime:TableOfContent'', ''items:''] @
             concat (map (\<lambda>ns.
               [''- uid: '' @ ns_uid ns, ''  name: '' @ fmt (ns_name ns),
                ''  type: '' @ fmt (ns_type ns)] @
               (if ns_items ns = [] then []
                else ''  items:'' # concat (map (\<lambda>it. write_item it 1 []) (ns_items ns)))) out)"
    unfolding write_lines_unfold by (subst write_namespace_unfold) simp
  have 4: "\<forall>k < length nss.
              map triple (ns_items (out ! k)) =
                map triple (filter (stays (ns_items (nss ! k))) (ns_items (nss ! k))) \<and>
              subseq (map triple (ns_items (out ! k))) (map triple (ns_items (nss ! k)))"
    using f 2 by simp
  from out 1 4 3 show ?thesis
    by - (rule exI [of _ out], intro conjI, assumption+)
qed

theorem nest_write_preserve_order_witness:
  "all_named [\<lparr>ns_uid = ''N1'', ns_name = Some ''N1'', ns_type = Some ''Namespace'',
        ns_items = [Item ''a'' (Some ''Widget'') (Some ''Class'') [], Item ''b'' (Some ''Widget.Inner'') (Some ''Class'') [], Item ''c'' (Some ''Gone.Orphan'') (Some ''Class'') []]\<rparr>] \<and>
   nest_items [\<lparr>ns_uid = ''N1'', ns_name = Some ''N1'', ns_type = Some ''Namespace'',
        ns_items = [Item ''a'' (Some ''Widget'') (Some ''Class'') [], Item ''b'' (Some ''Widget.Inner'') (Some ''Class'') [], Item ''c'' (Some ''Gone.Orphan'') (Some ''Class'') []]\<rparr>] = Inr [\<lparr>ns_uid = ''N1'', ns_name = Some ''N1'', ns_type = Some ''Namespace'',
        ns_items = [Item ''a'' (Some ''Widget'') (Some ''Class'') [Item ''b'' (Some ''Inner'') (Some ''Class'') []], Item ''c'' (Some ''Gone.Orphan'') (Some ''Class'') []]\<rparr>] \<and>
   write_lines [\<lparr>ns_uid = ''N1'', ns_name = Some ''N1'', ns_type = Some ''Namespace'',
        ns_items = [Item ''a'' (Some ''Widget'') (Some ''Class'') [Item ''b'' (Some ''Inner'') (Some ''Class'') []], Item ''c'' (Some ''Gone.Orphan'') (Some ''Class'') []]\<rparr>] =
     [''### YamlMime:TableOfContent'', ''items:'', ''- uid: N1'', ''  name: N1'',
      ''  type: Namespace'', ''  items:'', ''  - uid: a'', ''    name: Widget'',
      ''    type: Class'', ''    items:'', ''    - uid: b'', ''      name: Inner'',
      ''      type: Class'', ''  - uid: c'', ''    name: Gone.Orphan'', ''    type: Class'']"
  using nest_write_preserve_order [of "[\<lparr>ns_uid = ''N1'', ns_name = Some ''N1'', ns_type = Some ''Namespace'',
        ns_items = [Item ''a'' (Some ''Widget'') (Some ''Class'') [], Item ''b'' (Some ''Widget.Inner'') (Some ''Class'') [], Item ''c'' (Some ''Gone.Orphan'') (Some ''Class'') []]\<rparr>]"]
  by (simp add: all_named_def str_defs nest_defs write_defs)

text \<open>
  C7. When every item has a name, an item whose name has no dot, and an item whose name
  has a dot while no item of its namespace is named by the text before the last dot,
  is still in the top-level list of its namespace after \<open>nest_items\<close>, with its
  identifier, name and type.
\<close>

theorem unreparented_item_stays_top_level:
  assumes "all_named nss" and "k < length nss" and "it \<in> set (ns_items (nss ! k))"
    and "item_name it = Some n"
    and "dot \<notin> set n \<or> Some (parent_of n) \<notin> item_name ` set (ns_items (nss ! k))"
  shows "\<exists>out. nest_items nss = Inr out \<and>
           (\<exists>it' \<in> set (ns_items (out ! k)).
              item_uid it' = item_uid it \<and> item_name it' = Some n \<and> item_type it' = item_type it)"
proof -
  from nest_items_total [OF assms(1)] obtain out where out: "nest_items nss = Inr out" by blast
  from nest_items_pointwise [OF out] assms(2)
  have "nest_namespace (nss ! k) = Inr (out ! k)" by blast
  from nest_namespace_fields [OF this]
  have m: "map triple (ns_items (out ! k)) =
       map triple (filter (stays (ns_items (nss ! k))) (ns_items (nss ! k)))" by blast
  have "stays (ns_items (nss ! k)) it"
    using assms(4,5) by (auto simp: stays_def reparented_def find_parent_None)
  then have "triple it \<in> set (map triple (filter (stays (ns_items (nss ! k))) (ns_items (nss ! k))))"
    using assms(3) by auto
  then have "triple it \<in> set (map triple (ns_items (out ! k)))" using m by simp
  then obtain it' where "it' \<in> set (ns_items (out ! k))" "triple it' = triple it" by auto
  then show ?thesis using out assms(4) by (auto simp: triple_def)
qed

theorem unreparented_item_stays_top_level_witness:
  "all_named [\<lparr>ns_uid = ''N1'', ns_name = Some ''N1'', ns_type = Some ''Namespace'',
        ns_items = [Item ''a'' (Some ''Widget'') (Some ''Class'') [], Item ''b'' (Some ''Widget.Inner'') (Some ''Class'') [], Item ''c'' (Some ''Gone.Orphan'') (Some ''Class'') []]\<rparr>] \<and>
   Item ''a'' (Some ''Widget'') (Some ''Class'') [] \<in> set (ns_items (\<lparr>ns_uid = ''N1'', ns_name = Some ''N1'', ns_type = Some ''Namespace'',
        ns_items = [Item ''a'' (Some ''Widget'') (Some ''Class'') [], Item ''b'' (Some ''Widget.Inner'') (Some ''Class'') [], Item ''c'' (Some ''Gone.Orphan'') (Some ''Class'') []]\<rparr>)) \<and>
   dot \<notin> set ''Widget'' \<and>
   Item ''c'' (Some ''Gone.Orphan'') (Some ''Class'') [] \<in> set (ns_items (\<lparr>ns_uid = ''N1'', ns_name = Some ''N1'', ns_type = Some ''Namespace'',
        ns_items = [Item ''a'' (Some ''Widget'') (Some ''Class'') [], Item ''b'' (Some ''Widget.Inner'') (Some ''Class'') [], Item ''c'' (Some ''Gone.Orphan'') (Some ''Class'') []]\<rparr>)) \<and>
   Some (parent_of ''Gone.Orphan'') \<notin> item_name ` set (ns_items (\<lparr>ns_uid = ''N1'', ns_name = Some ''N1'', ns_type = Some ''Namespace'',
        ns_items = [Item ''a'' (Some ''Widget'') (Some ''Class'') [], Item ''b'' (Some ''Widget.Inner'') (Some ''Class'') [], Item ''c'' (Some ''Gone.Orphan'') (Some ''Class'') []]\<rparr>)) \<and>
   nest_items [\<lparr>ns_uid = ''N1'', ns_name = Some ''N1'', ns_type = Some ''Namespace'',
        ns_items = [Item ''a'' (Some ''Widget'') (Some ''Class'') [], Item ''b'' (Some ''Widget.Inner'') (Some ''Class'') [], Item ''c'' (Some ''Gone.Orphan'') (Some ''Class'') []]\<rparr>] = Inr [\<lparr>ns_uid = ''N1'', ns_name = Some ''N1'', ns_type = Some ''Namespace'',
        ns_items = [Item ''a'' (Some ''Widget'') (Some ''Class'') [Item ''b'' (Some ''Inner'') (Some ''Class'') []], Item ''c'' (Some ''Gone.Orphan'') (Some ''Class'') []]\<rparr>]"
  using unreparented_item_stays_top_level
      [of "[\<lparr>ns_uid = ''N1'', ns_name = Some ''N1'', ns_type = Some ''Namespace'',
        ns_items = [Item ''a'' (Some ''Widget'') (Some ''Class'') [], Item ''b'' (Some ''Widget.Inner'') (Some ''Class'') [], Item ''c'' (Some ''Gone.Orphan'') (Some ''Class'') []]\<rparr>]" 0 "Item ''a'' (Some ''Widget'') (Some ''Class'') []" "''Widget''"]
    unreparented_item_stays_top_level
      [of "[\<lparr>ns_uid = ''N1'', ns_name = Some ''N1'', ns_type = Some ''Namespace'',
        ns_items = [Item ''a'' (Some ''Widget'') (Some ''Class'') [], Item ''b'' (Some ''Widget.Inner'') (Some ''Class'') [], Item ''c'' (Some ''Gone.Orphan'') (Some ''Class'') []]\<rparr>]" 0 "Item ''c'' (Some ''Gone.Orphan'') (Some ''Class'') []" "''Gone.Orphan''"]
  by (simp add: all_named_def str_defs nest_defs)

text \<open>
  C3. The claim is for every namespace with an item named \<open>Foo\<close> and an item named
  \<open>Foo.Bar\<close>. Take \<open>Foo = Outer.Mid\<close> and \<open>Bar = Leaf\<close> in a namespace that also has
  \<open>Outer\<close>. The scan appends \<open>Leaf\<close> to the dictionary of \<open>Outer.Mid\<close>, but that item is
  itself moved under \<open>Outer\<close> as a fresh dictionary without children, and its own
  dictionary is filtered out: the output has no entry \<open>Leaf\<close>, under \<open>Mid\<close> or
  anywhere else.
\<close>

theorem nest_drops_child_of_nested_parent:
  "nest_items [\<lparr>ns_uid = ''N1'', ns_name = Some ''N1'', ns_type = Some ''Namespace'',
        ns_items = [Item ''o'' (Some ''Outer'') (Some ''Class'') [], Item ''m'' (Some ''Outer.Mid'') (Some ''Class'') [], Item ''l'' (Some ''Outer.Mid.Leaf'') (Some ''Struct'') []]\<rparr>] = Inr [\<lparr>ns_uid = ''N1'', ns_name = Some ''N1'', ns_type = Some ''Namespace'',
        ns_items = [Item ''o'' (Some ''Outer'') (Some ''Class'') [Item ''m'' (Some ''Mid'') (Some ''Class'') []]]\<rparr>] \<and>
   write_lines [\<lparr>ns_uid = ''N1'', ns_name = Some ''N1'', ns_type = Some ''Namespace'',
        ns_items = [Item ''o'' (Some ''Outer'') (Some ''Class'') [Item ''m'' (Some ''Mid'') (Some ''Class'') []]]\<rparr>] =
     [''### YamlMime:TableOfContent'', ''items:'', ''- uid: N1'', ''  name: N1'',
      ''  type: Namespace'', ''  items:'', ''  - uid: o'', ''    name: Outer'',
      ''    type: Class'', ''    items:'', ''    - uid: m'', ''      name: Mid'',
      ''      type: Class'']"
  by (simp add: str_defs nest_defs write_defs)

text \<open>
  Where the parent keeps its place the nesting is as intended: in a forest whose items all
  have names, if a namespace has an item named \<open>Foo\<close> that is not itself re-parented and
  an item named \<open>Foo.Bar\<close> (\<open>Bar\<close> without dot), then after \<open>nest_items\<close> a top-level
  item named \<open>Foo\<close> has the child \<open>Bar\<close> with the identifier and type of the
  \<open>Foo.Bar\<close> item, the written lines hold the three lines of that child inside the
  block of that item, and no top-level item of the namespace is named \<open>Foo.Bar\<close>.
\<close>

theorem child_nested_under_parent:
  assumes "all_named nss" and "k < length nss"
    and "p \<in> set (ns_items (nss ! k))" and "item_name p = Some foo"
    and "c \<in> set (ns_items (nss ! k))" and "item_name c = Some (foo @ dot # bar)"
    and "dot \<notin> set bar"
    and "dot \<notin> set foo \<or> Some (parent_of foo) \<notin> item_name ` set (ns_items (nss ! k))"
  shows "\<exists>out. nest_items nss = Inr out \<and>
           (\<exists>p' \<in> set (ns_items (out ! k)).
              item_name p' = Some foo \<and>
              Item (item_uid c) (Some bar) (item_type c) [] \<in> set (children p') \<and>
              sublist [''    - uid: '' @ item_uid c, ''      name: '' @ bar,
                       ''      type: '' @ fmt (item_type c)] (write_item p' 1 []) \<and>
              sublist (write_item p' 1 []) (write_lines out)) \<and>
           (\<forall>it \<in> set (ns_items (out ! k)). item_name it \<noteq> Some (foo @ dot # bar))"
proof -
  let ?I = "ns_items (nss ! k)"
  let ?n = "foo @ dot # bar"
  from nest_items_total [OF assms(1)] obtain out where out: "nest_items nss = Inr out" by blast
  from nest_items_pointwise [OF out] assms(2)
  have len: "length out = length nss" and nk: "nest_namespace (nss ! k) = Inr (out ! k)" by auto
  from nest_namespace_result [OF nk] obtain cur' N' where
    s: "nest_scan ?I (?I, {}) = Inr (cur', N')" "map triple cur' = map triple ?I"
       "out ! k = (nss ! k)\<lparr>ns_items := filter (stays ?I) cur'\<rparr>" by blast
  have items: "ns_items (out ! k) = filter (stays ?I) cur'" using s(3) by simp
  have "Some foo \<in> item_name ` set ?I" using assms(3,4) by (metis imageI)
  then have "find_parent foo ?I \<noteq> None" by (simp add: find_parent_None)
  then obtain j where j: "find_parent foo ?I = Some j" by blast
  have dn: "dot \<in> set ?n" by simp
  have child: "child_entry c bar \<in> set (children (cur' ! j))"
    using nest_scan_child [OF s(1) assms(5,6) dn] j assms(7) by simp
  have jl: "j < length ?I" "item_name (?I ! j) = Some foo" using find_parent_Some [OF j] by auto
  have l: "length cur' = length ?I" using s(2) by (metis length_map)
  have "triple (cur' ! j) = triple (?I ! j)" using s(2) jl(1) l by (metis nth_map)
  then have nm: "item_name (cur' ! j) = Some foo" using jl(2) by (simp add: triple_def)
  have "stays ?I (cur' ! j)"
    using nm assms(8) by (auto simp: stays_def reparented_def find_parent_None)
  then have mem: "cur' ! j \<in> set (ns_items (out ! k))" using items jl(1) l by simp
  have w1: "write_item (child_entry c bar) (Suc 1) [] =
      [''    - uid: '' @ item_uid c, ''      name: '' @ bar, ''      type: '' @ fmt (item_type c)]"
    by (simp add: child_entry_def spaces_def fmt_def)
  have sub1: "sublist [''    - uid: '' @ item_uid c, ''      name: '' @ bar,
                       ''      type: '' @ fmt (item_type c)] (write_item (cur' ! j) 1 [])"
    using sublist_child_item [OF child, of 1] unfolding w1 .
  have "out ! k \<in> set out" using len assms(2) by simp
  then have sub2: "sublist (write_item (cur' ! j) 1 []) (write_lines out)"
    using sublist_item_namespace [OF mem] sublist_namespace_lines [of "out ! k" out]
    by (blast intro: sublist_order.order.trans)
  have gone: "\<forall>it \<in> set (ns_items (out ! k)). item_name it \<noteq> Some ?n"
  proof
    fix it assume "it \<in> set (ns_items (out ! k))"
    then have "stays ?I it" using items by simp
    moreover have "reparented ?I ?n" using j assms(7) by (simp add: reparented_def)
    ultimately show "item_name it \<noteq> Some ?n" by (auto simp: stays_def)
  qed
  have child': "Item (item_uid c) (Some bar) (item_type c) [] \<in> set (children (cur' ! j))"
    using child by (simp add: child_entry_def)
  have inner: "\<exists>p' \<in> set (ns_items (out ! k)).
              item_name p' = Some foo \<and>
              Item (item_uid c) (Some bar) (item_type c) [] \<in> set (children p') \<and>
              sublist [''    - uid: '' @ item_uid c, ''      name: '' @ bar,
                       ''      type: '' @ fmt (item_type c)] (write_item p' 1 []) \<and>
              sublist (write_item p' 1 []) (write_lines out)"
    using nm child' sub1 sub2
    by - (rule bexI [of _ "cur' ! j"], intro conjI, assumption+, rule mem)
  from out inner gone show ?thesis
    by - (rule exI [of _ out], intro conjI, assumption+)
qed

theorem child_nested_under_parent_witness:
  "all_named [\<lparr>ns_uid = ''N1'', ns_name = Some ''N1'', ns_type = Some ''Namespace'',
        ns_items = [Item ''a'' (Some ''Widget'') (Some ''Class'') [], Item ''b'' (Some ''Widget.Inner'') (Some ''Class'') []]\<rparr>] \<and>
   Item ''a'' (Some ''Widget'') (Some ''Class'') [] \<in> set (ns_items (\<lparr>ns_uid = ''N1'', ns_name = Some ''N1'', ns_type = Some ''Namespace'',
        ns_items = [Item ''a'' (Some ''Widget'') (Some ''Class'') [], Item ''b'' (Some ''Widget.Inner'') (Some ''Class'') []]\<rparr>)) \<and>
   Item ''b'' (Some (''Widget'' @ dot # ''Inner'')) (Some ''Class'') [] \<in> set (ns_items (\<lparr>ns_uid = ''N1'', ns_name = Some ''N1'', ns_type = Some ''Namespace'',
        ns_items = [Item ''a'' (Some ''Widget'') (Some ''Class'') [], Item ''b'' (Some ''Widget.Inner'') (Some ''Class'') []]\<rparr>)) \<and>
   dot \<notin> set ''Inner'' \<and> dot \<notin> set ''Widget'' \<and>
   nest_items [\<lparr>ns_uid = ''N1'', ns_name = Some ''N1'', ns_type = Some ''Namespace'',
        ns_items = [Item ''a'' (Some ''Widget'') (Some ''Class'') [], Item ''b'' (Some ''Widget.Inner'') (Some ''Class'') []]\<rparr>] = Inr [\<lparr>ns_uid = ''N1'', ns_name = Some ''N1'', ns_type = Some ''Namespace'',
        ns_items = [Item ''a'' (Some ''Widget'') (Some ''Class'') [Item ''b'' (Some ''Inner'') (Some ''Class'') []]]\<rparr>] \<and>
   write_toc [\<lparr>ns_uid = ''N1'', ns_name = Some ''N1'', ns_type = Some ''Namespace'',
        ns_items = [Item ''a'' (Some ''Widget'') (Some ''Class'') [Item ''b'' (Some ''Inner'') (Some ''Class'') []]]\<rparr>] =
     ''### YamlMime:TableOfContent\<newline>items:\<newline>- uid: N1\<newline>  name: N1\<newline>  type: Namespace\<newline>  items:\<newline>  - uid: a\<newline>    name: Widget\<newline>    type: Class\<newline>    items:\<newline>    - uid: b\<newline>      name: Inner\<newline>      type: Class\<newline>''"
  using child_nested_under_parent
      [of "[\<lparr>ns_uid = ''N1'', ns_name = Some ''N1'', ns_type = Some ''Namespace'',
        ns_items = [Item ''a'' (Some ''Widget'') (Some ''Class'') [], Item ''b'' (Some ''Widget.Inner'') (Some ''Class'') []]\<rparr>]" 0 "Item ''a'' (Some ''Widget'') (Some ''Class'') []" "''Widget''"
          "Item ''b'' (Some ''Widget.Inner'') (Some ''Class'') []" "''Inner''"]
  by (simp add: all_named_def str_defs nest_defs write_defs)


section \<open>The driver\<close>

text \<open>
  C5, as stated: with no file at the path the tool writes a diagnostic to the error
  stream. The message goes through \<^verbatim>\<open>print\<close>, that is to the standard output; the
  error stream stays empty.
\<close>

theorem main_missing_file_stderr_empty:
  "snd (main ''api/toc.yml'' empty_world) =
     \<lparr>files = files empty_world, stdout = [''Error: api/toc.yml not found''], stderr = []\<rparr>"
  by (simp add: main_def empty_world_def print_def)

text \<open>
  C5, amended: when the target file does not exist, the tool ends with exit status 1,
  prints the diagnostic message to the standard output, leaves the error stream as it
  was and creates no file.
\<close>

theorem main_missing_file:
  "files w toc_path = None \<Longrightarrow>
   main toc_path w =
     (Exit 1, w\<lparr>stdout := stdout w @ [''Error: '' @ toc_path @ '' not found'']\<rparr>)"
  by (simp add: main_def print_def)

theorem main_missing_file_witness:
  "files empty_world ''api/toc.yml'' = None \<and>
   main ''api/toc.yml'' empty_world =
     (Exit 1, \<lparr>files = files empty_world, stdout = [''Error: api/toc.yml not found''],
               stderr = []\<rparr>)"
  using main_missing_file [of empty_world "''api/toc.yml''"] by (simp add: empty_world_def)


section \<open>Reading back what the writer wrote\<close>

subsection \<open>Stripping and indentation\<close>

lemma length_lstrip_le: "length (lstrip s) \<le> length s"
  by (simp add: lstrip_def length_dropWhile_le)

lemma lstrip_space [simp]: "isspace c \<Longrightarrow> lstrip (c # s) = lstrip s"
  by (simp add: lstrip_def)

lemma lstrip_nonspace [simp]: "\<not> isspace c \<Longrightarrow> lstrip (c # s) = c # s"
  by (simp add: lstrip_def)

lemma rstrip_Cons: "rstrip (c # s) = (if rstrip s = [] \<and> isspace c then [] else c # rstrip s)"
  by (auto simp: rstrip_def dropWhile_append)

lemma rstrip_Nil [simp]: "rstrip [] = []"
  by (simp add: rstrip_def)

lemma strip_Nil [simp]: "strip [] = []"
  by (simp add: strip_def lstrip_def)

lemma strip_space [simp]: "isspace c \<Longrightarrow> strip (c # s) = strip s"
  by (simp add: strip_def rstrip_Cons)

lemma strip_nonspace [simp]: "\<not> isspace c \<Longrightarrow> strip (c # s) = c # rstrip s"
  by (simp add: strip_def rstrip_Cons)

lemma indent_space [simp]: "isspace c \<Longrightarrow> indent_of (c # s) = Suc (indent_of s)"
  using length_lstrip_le [of s] by (simp add: indent_of_def Suc_diff_le)

lemma indent_nonspace [simp]: "\<not> isspace c \<Longrightarrow> indent_of (c # s) = 0"
  by (simp add: indent_of_def)

lemma isspace_space [simp]: "isspace CHR '' ''"
  by (simp add: isspace_def)

lemma strip_spaces [simp]: "strip (spaces d @ s) = strip s"
  by (induction d) (simp_all add: spaces_def)

lemma indent_spaces [simp]: "indent_of (spaces d @ s) = 2 * d + indent_of s"
  by (induction d) (simp_all add: spaces_def)

lemma rstrip_length_le: "length (rstrip s) \<le> length s"
  by (simp add: rstrip_def length_dropWhile_le [of isspace "rev s", simplified])

lemma strip_fixed:
  assumes "strip v = v"
  shows "rstrip v = v" and "lstrip v = v"
proof -
  have "length v = length (lstrip (rstrip v))" using assms by (simp add: strip_def)
  also have "\<dots> \<le> length (rstrip v)" by (rule length_lstrip_le)
  finally have "length (rstrip v) = length v" using rstrip_length_le [of v] by simp
  moreover obtain t where t: "v = rstrip v @ t"
    by (metis rstrip_def rev_rev_ident rev_append takeWhile_dropWhile_id)
  moreover have "length v = length (rstrip v) + length t"
    by (metis t length_append)
  ultimately have "t = []" by simp
  with t show "rstrip v = v" by simp
  then show "lstrip v = v" using assms by (simp add: strip_def)
qed

subsection \<open>Replacing the key\<close>

lemma replace_absent: "old \<noteq> [] \<Longrightarrow> \<not> sublist old s \<Longrightarrow> replace_str old new s = s"
  by (induction s) (auto simp: sublist_Cons_right)

lemma replace_prefix:
  "old \<noteq> [] \<Longrightarrow> replace_str old new (old @ r) = new @ replace_str old new r"
  by (cases old) auto

lemma field_value_written:
  assumes "strip v = v" and "\<not> sublist key v" and "key \<noteq> []" and "hd key \<noteq> CHR '' ''"
  shows "field_value key (key @ (if v = [] then [] else CHR '' '' # v)) = v"
proof (cases "v = []")
  case True
  then show ?thesis using assms(3) by (simp add: field_value_def replace_prefix [of key "[]" "[]", simplified])
next
  case False
  have "\<not> prefix key (CHR '' '' # v)" using assms(3,4) by (cases key) auto
  then have "\<not> sublist key (CHR '' '' # v)" using assms(2) by (simp add: sublist_Cons_right)
  then have "replace_str key [] (CHR '' '' # v) = CHR '' '' # v"
    using assms(3) by (rule replace_absent [rotated])
  then have "replace_str key [] (key @ CHR '' '' # v) = CHR '' '' # v"
    using replace_prefix [OF assms(3), of "[]" "CHR '' '' # v"] by simp
  then show ?thesis using False assms(1) by (simp add: field_value_def)
qed

subsection \<open>Splitting what was joined\<close>

lemma split_nl_line: "nl \<notin> set l \<Longrightarrow> split_nl (l @ nl # rest) = l # split_nl rest"
  by (induction l) auto

lemma split_nl_last: "nl \<notin> set l \<Longrightarrow> split_nl l = [l]"
  by (induction l) auto

lemma split_join:
  "ls \<noteq> [] \<Longrightarrow> \<forall>l \<in> set ls. nl \<notin> set l \<Longrightarrow> split_nl (join_nl ls @ [nl]) = ls @ [[]]"
proof (induction ls rule: join_nl.induct)
  case 1
  then show ?case by simp
next
  case (2 l)
  then show ?case using split_nl_line [of l "[]"] by simp
next
  case (3 l m ls)
  then show ?case using split_nl_line [of l "join_nl (m # ls) @ [nl]"] by simp
qed

lemma rstrip_nonspace [simp]: "\<not> isspace c \<Longrightarrow> rstrip (c # s) = c # rstrip s"
  by (simp add: rstrip_Cons)

lemma rstrip_nonempty [simp]: "rstrip s \<noteq> [] \<Longrightarrow> rstrip (c # s) = c # rstrip s"
  by (simp add: rstrip_Cons)

lemma nonspace_chars [simp]:
  "\<not> isspace CHR ''-''" "\<not> isspace CHR ''u''" "\<not> isspace CHR ''i''" "\<not> isspace CHR ''d''"
  "\<not> isspace CHR '':''" "\<not> isspace CHR ''n''" "\<not> isspace CHR ''a''" "\<not> isspace CHR ''m''"
  "\<not> isspace CHR ''e''" "\<not> isspace CHR ''t''" "\<not> isspace CHR ''y''" "\<not> isspace CHR ''p''"
  "\<not> isspace CHR ''s''" "\<not> isspace CHR ''#''"
  by (simp_all add: isspace_def)

lemma rstrip_value: "strip v = v \<Longrightarrow> rstrip (CHR '' '' # v) = (if v = [] then [] else CHR '' '' # v)"
  by (simp add: rstrip_Cons strip_fixed)

lemma field_value_key:
  assumes "clean_value key v" and "key \<noteq> []" and "hd key \<noteq> CHR '' ''"
  shows "field_value key (key @ rstrip (CHR '' '' # v)) = v"
  using field_value_written [of v key] assms rstrip_value [of v]
  by (simp add: clean_value_def)

lemma field_value_uid [simp]:
  "clean_value ''- uid:'' v \<Longrightarrow>
   field_value ''- uid:'' (CHR ''-'' # CHR '' '' # CHR ''u'' # CHR ''i'' # CHR ''d'' # CHR '':'' #
     rstrip (CHR '' '' # v)) = v"
  using field_value_key [of "''- uid:''" v] by simp

lemma field_value_name [simp]:
  "clean_value ''name:'' v \<Longrightarrow>
   field_value ''name:'' (CHR ''n'' # CHR ''a'' # CHR ''m'' # CHR ''e'' # CHR '':'' #
     rstrip (CHR '' '' # v)) = v"
  using field_value_key [of "''name:''" v] by simp

lemma field_value_type [simp]:
  "clean_value ''type:'' v \<Longrightarrow>
   field_value ''type:'' (CHR ''t'' # CHR ''y'' # CHR ''p'' # CHR ''e'' # CHR '':'' #
     rstrip (CHR '' '' # v)) = v"
  using field_value_key [of "''type:''" v] by simp

subsection \<open>Single written lines\<close>

lemma skip_uid_line: "2 \<le> d \<Longrightarrow> parse_line st (spaces d @ ''- uid: '' @ u) = Inr st"
  by (simp add: parse_line_def Let_def startswith_def)

lemma skip_name_line: "2 \<le> d \<Longrightarrow> parse_line st (spaces d @ ''  name: '' @ x) = Inr st"
  by (simp add: parse_line_def Let_def startswith_def)

lemma skip_type_line: "2 \<le> d \<Longrightarrow> parse_line st (spaces d @ ''  type: '' @ x) = Inr st"
  by (simp add: parse_line_def Let_def startswith_def)

lemma skip_items_line: "parse_line st (spaces d @ ''  items:'') = Inr st"
  by (simp add: parse_line_def Let_def startswith_def)

lemma namespace_uid_line:
  "clean_value ''- uid:'' u \<Longrightarrow>
   parse_line st (''- uid: '' @ u) =
     Inr \<lparr>result = flush st,
          current_namespace = Some \<lparr>ns_uid = u, ns_name = None, ns_type = None, ns_items = []\<rparr>,
          current_item = None\<rparr>"
  by (simp add: parse_line_def Let_def startswith_def flush_def)

lemma namespace_name_line:
  "clean_value ''name:'' v \<Longrightarrow> current_namespace st = Some ns \<Longrightarrow> ns_name ns = None \<Longrightarrow>
   parse_line st (''  name: '' @ v) = Inr (st\<lparr>current_namespace := Some (ns\<lparr>ns_name := Some v\<rparr>)\<rparr>)"
  by (simp add: parse_line_def Let_def startswith_def)

lemma namespace_type_line:
  "clean_value ''type:'' v \<Longrightarrow> current_namespace st = Some ns \<Longrightarrow> ns_type ns = None \<Longrightarrow>
   parse_line st (''  type: '' @ v) = Inr (st\<lparr>current_namespace := Some (ns\<lparr>ns_type := Some v\<rparr>)\<rparr>)"
  by (simp add: parse_line_def Let_def startswith_def)

lemma item_uid_line:
  "clean_value ''- uid:'' u \<Longrightarrow> current_namespace st = Some ns \<Longrightarrow>
   parse_line st (spaces 1 @ ''- uid: '' @ u) =
     Inr (st\<lparr>current_namespace := Some (ns\<lparr>ns_items := ns_items ns @ [Item u None None []]\<rparr>),
             current_item := Some (length (ns_items ns))\<rparr>)"
  by (simp add: parse_line_def Let_def startswith_def)

lemma item_name_line:
  "clean_value ''name:'' v \<Longrightarrow> current_namespace st = Some ns \<Longrightarrow> current_item st = Some i \<Longrightarrow>
   parse_line st (spaces 1 @ ''  name: '' @ v) =
     Inr (st\<lparr>current_namespace := Some (update_item i (set_item_name v) ns)\<rparr>)"
  by (simp add: parse_line_def Let_def startswith_def)

lemma item_type_line:
  "clean_value ''type:'' v \<Longrightarrow> current_namespace st = Some ns \<Longrightarrow> current_item st = Some i \<Longrightarrow>
   parse_line st (spaces 1 @ ''  type: '' @ v) =
     Inr (st\<lparr>current_namespace := Some (update_item i (set_item_type v) ns)\<rparr>)"
  by (simp add: parse_line_def Let_def startswith_def)

lemmas skip_lines =
  skip_uid_line [simplified] skip_name_line [simplified] skip_type_line [simplified]
  skip_items_line [simplified]

lemmas namespace_lines =
  namespace_uid_line [simplified] namespace_name_line [simplified]
  namespace_type_line [simplified]

lemmas item_lines =
  item_uid_line [simplified] item_name_line [simplified] item_type_line [simplified]

lemma parse_lines_concat_skip:
  assumes "\<And>x st. x \<in> set xs \<Longrightarrow> parse_lines st (f x) = Inr st"
  shows "parse_lines st (concat (map f xs)) = Inr st"
  using assms by (induction xs) (simp_all add: parse_lines_append)

lemma child_block: "2 \<le> d \<Longrightarrow> parse_lines st (write_item c d []) = Inr st"
proof (induction c arbitrary: d st)
  case (Item u n t cs)
  have kids: "parse_lines st' (concat (map (\<lambda>c. write_item c (Suc d) []) cs)) = Inr st'" for st'
    by (rule parse_lines_concat_skip) (use Item in simp)
  show ?case
    unfolding write_item_unfold
    using Item.prems
    by (simp add: skip_lines kids del: write_item.simps)
qed

lemma item_block:
  assumes "clean_item it" and "current_namespace st = Some ns"
  shows "parse_lines st (write_item it 1 []) =
           Inr (st\<lparr>current_namespace := Some (ns\<lparr>ns_items := ns_items ns @ [top_level it]\<rparr>),
                   current_item := Some (length (ns_items ns))\<rparr>)"
proof -
  obtain u n t cs where it: "it = Item u n t cs" by (cases it)
  from assms(1) obtain nv tv where c: "clean_value ''- uid:'' u" "n = Some nv"
      "clean_value ''name:'' nv" "t = Some tv" "clean_value ''type:'' tv"
    by (auto simp: it clean_item_def clean_field_def split: option.splits)
  have kids: "parse_lines st' (concat (map (\<lambda>c. write_item c (Suc (Suc 0)) []) cs)) = Inr st'"
    for st'
    by (rule parse_lines_concat_skip) (simp add: child_block)
  show ?thesis
    unfolding it write_item_unfold
    using c assms(2)
    by (simp add: item_lines skip_lines kids fmt_def
        update_item_def set_item_name_def set_item_type_def top_level_def
        del: write_item.simps)
qed

lemma items_block:
  assumes "\<forall>it \<in> set its. clean_item it" and "current_namespace st = Some ns"
  shows "\<exists>st'. parse_lines st (concat (map (\<lambda>it. write_item it 1 []) its)) = Inr st' \<and>
           result st' = result st \<and>
           current_namespace st' = Some (ns\<lparr>ns_items := ns_items ns @ map top_level its\<rparr>)"
  using assms
proof (induction its arbitrary: st ns)
  case Nil
  then show ?case by simp
next
  case (Cons it its)
  let ?st1 = "st\<lparr>current_namespace := Some (ns\<lparr>ns_items := ns_items ns @ [top_level it]\<rparr>),
                current_item := Some (length (ns_items ns))\<rparr>"
  have 1: "parse_lines st (write_item it 1 []) = Inr ?st1"
    using item_block [of it st ns] Cons.prems by simp
  have "\<exists>st'. parse_lines ?st1 (concat (map (\<lambda>it. write_item it 1 []) its)) = Inr st' \<and>
           result st' = result ?st1 \<and>
           current_namespace st' =
             Some (ns\<lparr>ns_items := ns_items ns @ [top_level it]\<rparr>
                    \<lparr>ns_items := ns_items (ns\<lparr>ns_items := ns_items ns @ [top_level it]\<rparr>) @
                       map top_level its\<rparr>)"
    by (rule Cons.IH) (use Cons.prems in simp_all)
  then show ?case by (simp add: parse_lines_append 1 del: write_item.simps One_nat_def)
qed

lemma namespace_block:
  assumes "clean_namespace ns"
  shows "\<exists>st'. parse_lines st (write_namespace ns []) = Inr st' \<and>
           flush st' = flush st @ [drop_children ns]"
proof -
  from assms obtain nv tv where c: "clean_value ''- uid:'' (ns_uid ns)" "ns_name ns = Some nv"
      "clean_value ''name:'' nv" "ns_type ns = Some tv" "clean_value ''type:'' tv"
      "\<forall>it \<in> set (ns_items ns). clean_item it"
    by (auto simp: clean_namespace_def clean_field_def split: option.splits)
  let ?n0 = "\<lparr>ns_uid = ns_uid ns, ns_name = Some nv, ns_type = Some tv, ns_items = []\<rparr>"
  let ?st3 = "\<lparr>result = flush st, current_namespace = Some ?n0, current_item = None\<rparr>"
  let ?head = "[''- uid: '' @ ns_uid ns, ''  name: '' @ nv, ''  type: '' @ tv]"
  let ?body = "concat (map (\<lambda>it. write_item it 1 []) (ns_items ns))"
  have head: "parse_lines st ?head = Inr ?st3"
    using c by (simp add: namespace_lines)
  have dc: "drop_children ns = ?n0\<lparr>ns_items := map top_level (ns_items ns)\<rparr>"
    using c(2,4) by (cases ns) (simp add: drop_children_def)
  show ?thesis
  proof (cases "ns_items ns = []")
    case True
    have "write_namespace ns [] = ?head"
      using True c(2,4) by (simp add: write_namespace_unfold fmt_def)
    then show ?thesis using head dc True by (simp add: flush_def del: parse_lines.simps)
  next
    case False
    from items_block [OF c(6), of ?st3 ?n0] obtain st' where
      s: "parse_lines ?st3 ?body = Inr st'"
         "result st' = flush st"
         "current_namespace st' = Some (?n0\<lparr>ns_items := map top_level (ns_items ns)\<rparr>)"
      by auto
    have w: "write_namespace ns [] = ?head @ (''  items:'' # ?body)"
      using False c(2,4) by (simp add: write_namespace_unfold fmt_def del: One_nat_def)
    have "parse_line ?st3 ''  items:'' = Inr ?st3"
      using skip_items_line [of ?st3 0] by (simp add: spaces_def)
    then have "parse_lines ?st3 (''  items:'' # ?body) = Inr st'"
      using s(1) by (simp del: One_nat_def)
    then have "parse_lines st (write_namespace ns []) = Inr st'"
      unfolding w parse_lines_append head by simp
    then show ?thesis using s(2,3) dc by (simp add: flush_def)
  qed
qed

lemma forest_block:
  assumes "\<forall>ns \<in> set f. clean_namespace ns"
  shows "\<exists>st'. parse_lines st (concat (map (\<lambda>ns. write_namespace ns []) f)) = Inr st' \<and>
           flush st' = flush st @ map drop_children f"
  using assms
proof (induction f arbitrary: st)
  case Nil
  then show ?case by simp
next
  case (Cons ns f)
  from namespace_block [of ns st] Cons.prems obtain st1 where
    1: "parse_lines st (write_namespace ns []) = Inr st1" "flush st1 = flush st @ [drop_children ns]"
    by auto
  from Cons.IH [of st1] Cons.prems obtain st' where
    2: "parse_lines st1 (concat (map (\<lambda>ns. write_namespace ns []) f)) = Inr st'"
       "flush st' = flush st1 @ map drop_children f"
    by auto
  show ?case using 1 2 by (simp add: parse_lines_append)
qed

subsection \<open>No newline inside a written line\<close>

lemma spaces_nl [simp]: "nl \<notin> set (spaces d)"
  by (induction d) (simp_all add: spaces_def nl_def)

lemma plain_item_lines: "plain_item c \<Longrightarrow> \<forall>l \<in> set (write_item c d []). nl \<notin> set l"
proof (induction c arbitrary: d)
  case (Item u n t cs)
  then have "\<forall>c \<in> set cs. \<forall>l \<in> set (write_item c (Suc d) []). nl \<notin> set l" by simp
  then show ?case
    unfolding write_item_unfold using Item.prems
    by (auto simp: nl_def spaces_nl [unfolded nl_def] simp del: write_item.simps)
qed

lemma clean_item_plain: "clean_item it \<Longrightarrow> plain_item it"
  by (cases it) (auto simp: clean_item_def clean_field_def clean_value_def fmt_def
      split: option.splits)

lemma clean_namespace_lines:
  assumes "clean_namespace ns"
  shows "\<forall>l \<in> set (write_namespace ns []). nl \<notin> set l"
proof -
  have "\<forall>it \<in> set (ns_items ns). \<forall>l \<in> set (write_item it 1 []). nl \<notin> set l"
    using assms clean_item_plain plain_item_lines by (auto simp: clean_namespace_def)
  then show ?thesis
    unfolding write_namespace_unfold using assms
    by (auto simp: clean_namespace_def clean_field_def clean_value_def fmt_def nl_def
        split: option.splits simp del: write_item.simps One_nat_def)
qed

lemma clean_forest_lines:
  assumes "clean_forest f"
  shows "\<forall>l \<in> set (write_lines f). nl \<notin> set l"
  unfolding write_lines_unfold using assms clean_namespace_lines
  by (auto simp: clean_forest_def nl_def)

text \<open>
  C2, as stated: for every forest, also one whose items carry child lists, reading back
  the written text gives the same tree, so that a second run of the tool changes nothing.
  The forest below is what the nester makes of \<open>Widget\<close> and \<open>Widget.Inner\<close>; read back,
  \<open>Widget\<close> has no child, and the nester has nothing to restore it from.
\<close>

theorem reparse_loses_children:
  "parse_toc (write_toc [\<lparr>ns_uid = ''N1'', ns_name = Some ''N1'', ns_type = Some ''Namespace'',
        ns_items = [Item ''a'' (Some ''Widget'') (Some ''Class'') [Item ''b'' (Some ''Inner'') (Some ''Class'') []]]\<rparr>]) = Inr [\<lparr>ns_uid = ''N1'', ns_name = Some ''N1'', ns_type = Some ''Namespace'',
        ns_items = [Item ''a'' (Some ''Widget'') (Some ''Class'') []]\<rparr>] \<and>
   nest_items [\<lparr>ns_uid = ''N1'', ns_name = Some ''N1'', ns_type = Some ''Namespace'',
        ns_items = [Item ''a'' (Some ''Widget'') (Some ''Class'') []]\<rparr>] = Inr [\<lparr>ns_uid = ''N1'', ns_name = Some ''N1'', ns_type = Some ''Namespace'',
        ns_items = [Item ''a'' (Some ''Widget'') (Some ''Class'') []]\<rparr>]"
  by (simp add: str_defs parse_defs nest_defs write_defs)

text \<open>
  C2, amended: for a forest whose namespace and top-level item fields are clean and
  whose nested items print without newline, reading back the written text succeeds and
  gives the namespaces and their top-level items with the same identifiers, names and
  types in the same order, but without any child list: \<open>parse_toc\<close> has no branch for the
  lines of nested items (indentation 4 and more). So the round trip is the identity on
  forests without children only.
\<close>

theorem reparse_written_forest:
  assumes "clean_forest f"
  shows "parse_toc (write_toc f) = Inr (map drop_children f) \<and>
         ((\<forall>ns \<in> set f. \<forall>it \<in> set (ns_items ns). children it = []) \<longrightarrow>
            parse_toc (write_toc f) = Inr f)"
proof -
  let ?body = "concat (map (\<lambda>ns. write_namespace ns []) f)"
  have ne: "write_lines f \<noteq> []" by (simp add: write_lines_unfold)
  have split: "split_nl (write_toc f) = write_lines f @ [[]]"
    unfolding write_toc_def by (rule split_join [OF ne clean_forest_lines [OF assms]])
  from forest_block [of f init_pstate] assms obtain st' where
    s: "parse_lines init_pstate ?body = Inr st'" "flush st' = map drop_children f"
    by (auto simp: clean_forest_def init_pstate_def flush_def)
  have h1: "parse_line init_pstate ''### YamlMime:TableOfContent'' = Inr init_pstate"
    by (simp add: parse_line_def Let_def startswith_def)
  have h2: "parse_line init_pstate ''items:'' = Inr init_pstate"
    by (simp add: parse_line_def Let_def startswith_def)
  have e: "parse_line st' [] = Inr st'"
    by (simp add: parse_line_def)
  have "parse_lines init_pstate (write_lines f @ [[]]) = Inr st'"
    unfolding write_lines_unfold using h1 h2 s(1) e by (simp add: parse_lines_append)
  then have main: "parse_toc (write_toc f) = Inr (map drop_children f)"
    using s(2) by (simp add: parse_toc_def split)
  have "map drop_children f = f"
    if "\<forall>ns \<in> set f. \<forall>it \<in> set (ns_items ns). children it = []"
  proof (rule map_idI)
    fix ns assume "ns \<in> set f"
    with that have "\<forall>it \<in> set (ns_items ns). children it = []" by blast
    then have "map top_level (ns_items ns) = ns_items ns"
      by (intro map_idI) (metis top_level_def item.collapse)
    then show "drop_children ns = ns" by (simp add: drop_children_def)
  qed
  with main show ?thesis by simp
qed

theorem reparse_written_forest_witness:
  "clean_forest [\<lparr>ns_uid = ''N1'', ns_name = Some ''N1'', ns_type = Some ''Namespace'',
        ns_items = [Item ''a'' (Some ''Widget'') (Some ''Class'') [Item ''b'' (Some ''Inner'') (Some ''Class'') []]]\<rparr>] \<and>
   parse_toc (write_toc [\<lparr>ns_uid = ''N1'', ns_name = Some ''N1'', ns_type = Some ''Namespace'',
        ns_items = [Item ''a'' (Some ''Widget'') (Some ''Class'') [Item ''b'' (Some ''Inner'') (Some ''Class'') []]]\<rparr>]) = Inr [\<lparr>ns_uid = ''N1'', ns_name = Some ''N1'', ns_type = Some ''Namespace'',
        ns_items = [Item ''a'' (Some ''Widget'') (Some ''Class'') []]\<rparr>] \<and>
   clean_forest [\<lparr>ns_uid = ''N1'', ns_name = Some ''N1'', ns_type = Some ''Namespace'',
        ns_items = [Item ''a'' (Some ''Widget'') (Some ''Class'') []]\<rparr>] \<and>
   parse_toc (write_toc [\<lparr>ns_uid = ''N1'', ns_name = Some ''N1'', ns_type = Some ''Namespace'',
        ns_items = [Item ''a'' (Some ''Widget'') (Some ''Class'') []]\<rparr>]) = Inr [\<lparr>ns_uid = ''N1'', ns_name = Some ''N1'', ns_type = Some ''Namespace'',
        ns_items = [Item ''a'' (Some ''Widget'') (Some ''Class'') []]\<rparr>]"
  using reparse_written_forest [of "[\<lparr>ns_uid = ''N1'', ns_name = Some ''N1'', ns_type = Some ''Namespace'',
        ns_items = [Item ''a'' (Some ''Widget'') (Some ''Class'') [Item ''b'' (Some ''Inner'') (Some ''Class'') []]]\<rparr>]"] reparse_written_forest [of "[\<lparr>ns_uid = ''N1'', ns_name = Some ''N1'', ns_type = Some ''Namespace'',
        ns_items = [Item ''a'' (Some ''Widget'') (Some ''Class'') []]\<rparr>]"]
  by (simp add: clean_forest_def clean_namespace_def clean_item_def clean_field_def
      clean_value_def drop_children_def top_level_def sublist_code str_defs)

end
